theory Spec2Isabelle
  imports Main
begin

section \<open>C strings and machine sizes\<close>

text \<open>
  A crontab line is the byte sequence held in a NUL-terminated buffer. The model keeps
  the bytes before the terminator as a list; reading at or beyond the end of the list
  yields the terminator. An embedded NUL byte behaves as a terminator as well, as it
  does for the C code, because every loop below stops at the first NUL it reads.
\<close>

definition NUL :: char where
  "NUL = CHR 0x00"

definition char_at :: "string \<Rightarrow> nat \<Rightarrow> char" where
  "char_at line i = (if i < length line then line ! i else NUL)"

text \<open>\<open>isblank\<close> and \<open>isdigit\<close> of the C locale.\<close>

definition isblank :: "char \<Rightarrow> bool" where
  "isblank c = (c = CHR '' '' \<or> c = CHR 0x09)"

definition isdigit :: "char \<Rightarrow> bool" where
  "isdigit c = (48 \<le> (of_char c :: nat) \<and> (of_char c :: nat) \<le> 57)"

text \<open>
  \<open>size_t\<close> is a 64-bit unsigned integer (LP64). Sizes are natural numbers below
  \<open>2 ^ 64\<close> and the wrap-around of subtraction, addition and multiplication is
  written out.
\<close>

definition SIZE_MAX :: nat where
  "SIZE_MAX = 2 ^ 64 - 1"

definition size_sub :: "nat \<Rightarrow> nat \<Rightarrow> nat" where
  "size_sub a b = (a + 2 ^ 64 - b mod 2 ^ 64) mod 2 ^ 64"

definition size_add :: "nat \<Rightarrow> nat \<Rightarrow> nat" where
  "size_add a b = (a + b) mod 2 ^ 64"

section \<open>The job descriptor\<close>

text \<open>
  \<open>struct crond_job\<close> of crond.h: two owned buffers, the payload length, and the
  boolean arrays \<open>minute[60]\<close>, \<open>hour[24]\<close>, \<open>day[31]\<close>, \<open>month[12]\<close>,
  \<open>weekday[7]\<close>, \<open>pad[2]\<close> declared one after the other. A \<open>bool\<close> has size and
  alignment one, so the six arrays occupy 136 consecutive bytes of the descriptor.
  The field \<open>bits\<close> is that region; an array is named by the offset of its first
  element. The code indexes the arrays without any bounds check, so an index beyond
  an array's length lands in the array declared after it, and a negative one in the
  array declared before it.
\<close>

type_synonym ptr = "nat option"

record crond_job =
  command :: ptr
  stdin_lines :: ptr
  stdin_lines_len :: nat
  bits :: "bool list"

definition minute_field :: nat where "minute_field = 0"
definition hour_field :: nat where "hour_field = 60"
definition day_field :: nat where "day_field = 84"
definition month_field :: nat where "month_field = 115"
definition weekday_field :: nat where "weekday_field = 127"
definition pad_field :: nat where "pad_field = 134"

definition sizeof_minute :: nat where "sizeof_minute = 60"
definition sizeof_hour :: nat where "sizeof_hour = 24"
definition sizeof_day :: nat where "sizeof_day = 31"
definition sizeof_month :: nat where "sizeof_month = 12"
definition sizeof_weekday :: nat where "sizeof_weekday = 7"
definition sizeof_pad :: nat where "sizeof_pad = 2"

definition sizeof_bits :: nat where
  "sizeof_bits = 136"

text \<open>Three 8-byte members followed by the 136 booleans.\<close>

definition sizeof_crond_job :: nat where
  "sizeof_crond_job = 160"

section \<open>Field parser\<close>

text \<open>
  \<open>crond_crontab_parse_blank\<close>: skip blanks from \<open>line_idx\<close>; the result is the
  number of blanks skipped and the updated index.
\<close>

function parse_blank_loop :: "string \<Rightarrow> nat \<Rightarrow> nat \<Rightarrow> nat \<times> nat" where
  "parse_blank_loop line line_idx num_blanks =
     (if isblank (char_at line line_idx)
      then parse_blank_loop line (line_idx + 1) (num_blanks + 1)
      else (num_blanks, line_idx))"
  by pat_completeness auto
termination
  by (relation "measure (\<lambda>(line, line_idx, num_blanks). length line - line_idx)")
     (auto simp: char_at_def isblank_def NUL_def split: if_splits)

declare parse_blank_loop.simps [simp del]

definition crond_crontab_parse_blank :: "string \<Rightarrow> nat \<Rightarrow> nat \<times> nat" where
  "crond_crontab_parse_blank line line_idx = parse_blank_loop line line_idx 0"

text \<open>
  \<open>crond_strtoul_field\<close> reads a three-byte buffer that holds one or two digits
  followed by NUL bytes.
\<close>

definition crond_strtoul_field :: "char list \<Rightarrow> nat" where
  "crond_strtoul_field str =
     (if str ! 1 = NUL then of_char (str ! 0) - 48
      else 10 * (of_char (str ! 0) - 48) + 1 * (of_char (str ! 1) - 48))"

text \<open>
  \<open>crond_set_field_range\<close>: the loop \<open>for(i = start; i <= end; i++) field[i] = true\<close>,
  on the array that starts at offset \<open>field\<close> of the descriptor's boolean region.
  Every call of the parser has \<open>field + end\<close> at most 134, inside the region.
\<close>

function set_field_range_loop :: "bool list \<Rightarrow> nat \<Rightarrow> nat \<Rightarrow> nat \<Rightarrow> bool list" where
  "set_field_range_loop mem field i end_idx =
     (if i \<le> end_idx
      then set_field_range_loop (mem[field + i := True]) field (i + 1) end_idx
      else mem)"
  by pat_completeness auto
termination
  by (relation "measure (\<lambda>(mem, field, i, end_idx). Suc end_idx - i)") auto

declare set_field_range_loop.simps [simp del]

definition crond_set_field_range :: "bool list \<Rightarrow> nat \<Rightarrow> nat \<Rightarrow> nat \<Rightarrow> bool list" where
  "crond_set_field_range mem field start end_idx = set_field_range_loop mem field start end_idx"

text \<open>
  The digit loop \<open>for(i = 0; i < 2 && isdigit(line[*line_idx]); i++)\<close> runs at most
  twice; it is written out. The result is the zero-filled three-byte buffer, the
  final \<open>i\<close> and the updated index.
\<close>

definition scan_digits :: "string \<Rightarrow> nat \<Rightarrow> char list \<times> nat \<times> nat" where
  "scan_digits line line_idx =
     (if isdigit (char_at line line_idx) then
        (if isdigit (char_at line (line_idx + 1))
         then ([char_at line line_idx, char_at line (line_idx + 1), NUL], 2, line_idx + 2)
         else ([char_at line line_idx, NUL, NUL], 1, line_idx + 1))
      else ([NUL, NUL, NUL], 0, line_idx))"

text \<open>
  The part of one iteration of the \<open>do\<close> loop that follows the digits: the bounds
  check on \<open>d1\<close>, the single value, and the range with its swap and clamp.
\<close>

definition field_fill :: "int \<Rightarrow> bool list \<Rightarrow> nat \<Rightarrow> nat \<Rightarrow> nat \<Rightarrow> nat \<Rightarrow> int \<times> bool list" where
  "field_fill rc mem field field_len d1 d2 =
     (if d1 \<ge> field_len then (-1, mem)
      else if d2 = SIZE_MAX then (rc, crond_set_field_range mem field d1 d1)
      else
        (let (d1', d2') = (if d1 > d2 then (d2, d1) else (d1, d2));
             d2'' = (if d2' \<ge> field_len then field_len else d2')
         in (rc, crond_set_field_range mem field d1' d2'')))"

text \<open>
  One iteration up to the test for a comma. The first component tells whether the
  iteration left the loop through \<open>break\<close>.
\<close>

definition parse_field_item ::
  "string \<Rightarrow> nat \<Rightarrow> int \<Rightarrow> bool list \<Rightarrow> nat \<Rightarrow> nat \<Rightarrow> nat \<Rightarrow> bool \<times> int \<times> nat \<times> bool list" where
  "parse_field_item line line_idx rc mem field field_len offset =
     (case scan_digits line line_idx of (digit_1, i, idx1) \<Rightarrow>
        if i = 0 then (True, -1, idx1, mem)
        else if char_at line idx1 = CHR ''-'' then
          (case scan_digits line (idx1 + 1) of (digit_2, i2, idx2) \<Rightarrow>
             if i2 = 0 then (True, -1, idx2, mem)
             else
               (let d2 = size_sub (crond_strtoul_field digit_2) offset;
                    d1 = size_sub (crond_strtoul_field digit_1) offset
                in case field_fill rc mem field field_len d1 d2 of
                     (rc', mem') \<Rightarrow> (False, rc', idx2, mem')))
        else
          (let d2 = SIZE_MAX;
               d1 = size_sub (crond_strtoul_field digit_1) offset
           in case field_fill rc mem field field_len d1 d2 of
                (rc', mem') \<Rightarrow> (False, rc', idx1, mem')))"

lemma scan_digits_idx: "scan_digits line line_idx = (d, i, idx') \<Longrightarrow> line_idx \<le> idx'"
  by (auto simp: scan_digits_def split: if_splits)

lemma parse_field_item_idx:
  "parse_field_item line line_idx rc mem field field_len offset = (b, rc', idx', mem')
   \<Longrightarrow> line_idx \<le> idx'"
  by (auto simp: parse_field_item_def Let_def split: prod.splits if_splits
           dest!: scan_digits_idx)

lemma char_at_not_NUL: "char_at line i \<noteq> NUL \<Longrightarrow> i < length line"
  by (simp add: char_at_def split: if_splits)

lemma char_at_comma: "char_at line i = CHR '','' \<Longrightarrow> i < length line"
  by (rule char_at_not_NUL) (simp add: NUL_def)

text \<open>The \<open>do ... while(has_comma)\<close> loop.\<close>

function parse_field_items ::
  "string \<Rightarrow> nat \<Rightarrow> int \<Rightarrow> bool list \<Rightarrow> nat \<Rightarrow> nat \<Rightarrow> nat \<Rightarrow> int \<times> nat \<times> bool list" where
  "parse_field_items line line_idx rc mem field field_len offset =
     (case parse_field_item line line_idx rc mem field field_len offset of
        (broke, rc', idx', mem') \<Rightarrow>
          if broke then (rc', idx', mem')
          else if char_at line idx' = CHR '',''
          then parse_field_items line (idx' + 1) rc' mem' field field_len offset
          else (rc', idx', mem'))"
  by pat_completeness auto
termination
proof (relation "measure (\<lambda>(line, line_idx, rc, mem, field, field_len, offset). length line - line_idx)",
       goal_cases)
  case 1
  show ?case by simp
next
  case prems: 2
  from prems show ?case
    by (auto dest!: parse_field_item_idx [OF sym] dest: char_at_comma)
qed

declare parse_field_items.simps [simp del]

definition crond_parse_field_int ::
  "string \<Rightarrow> nat \<Rightarrow> bool list \<Rightarrow> nat \<Rightarrow> nat \<Rightarrow> nat \<Rightarrow> int \<times> nat \<times> bool list" where
  "crond_parse_field_int line line_idx mem field field_len offset =
     (case (if char_at line line_idx = CHR ''*''
            then (0, line_idx + 1, crond_set_field_range mem field 0 field_len)
            else parse_field_items line line_idx 0 mem field field_len offset) of
        (rc, idx, mem') \<Rightarrow>
          (case crond_crontab_parse_blank line idx of
             (num_blanks, idx') \<Rightarrow> (if num_blanks = 0 then -1 else rc, idx', mem')))"

section \<open>Heap of owned buffers\<close>

text \<open>
  The buffers a job owns are allocated with \<open>strndup\<close> and \<open>strdup\<close> and released
  with \<open>free\<close>. The heap maps the address of every live buffer to its bytes,
  terminator included. \<open>brk\<close> counts the allocation requests made so far and is the
  address handed out next; the oracle \<open>ok\<close> tells for each request whether the
  allocator succeeds. \<open>None\<close> is the NULL pointer.
\<close>

record heap =
  cells :: "nat \<Rightarrow> char list option"
  brk :: nat

definition heap_alloc :: "(nat \<Rightarrow> bool) \<Rightarrow> heap \<Rightarrow> char list \<Rightarrow> ptr \<times> heap" where
  "heap_alloc ok h buf =
     (if ok (brk h)
      then (Some (brk h), h\<lparr>cells := (cells h)(brk h \<mapsto> buf), brk := brk h + 1\<rparr>)
      else (None, h\<lparr>brk := brk h + 1\<rparr>))"

definition heap_free :: "heap \<Rightarrow> ptr \<Rightarrow> heap" where
  "heap_free h p = (case p of None \<Rightarrow> h | Some a \<Rightarrow> h\<lparr>cells := (cells h)(a := None)\<rparr>)"

text \<open>The C string that starts at index \<open>i\<close> of a buffer.\<close>

definition c_string_at :: "string \<Rightarrow> nat \<Rightarrow> string" where
  "c_string_at line i = takeWhile (\<lambda>c. c \<noteq> NUL) (drop i line)"

definition strndup :: "(nat \<Rightarrow> bool) \<Rightarrow> heap \<Rightarrow> string \<Rightarrow> nat \<Rightarrow> nat \<Rightarrow> ptr \<times> heap" where
  "strndup ok h line i n = heap_alloc ok h (take n (c_string_at line i) @ [NUL])"

definition strdup :: "(nat \<Rightarrow> bool) \<Rightarrow> heap \<Rightarrow> string \<Rightarrow> nat \<Rightarrow> ptr \<times> heap" where
  "strdup ok h line i = heap_alloc ok h (c_string_at line i @ [NUL])"

definition crond_job_free :: "heap \<Rightarrow> crond_job \<Rightarrow> heap" where
  "crond_job_free h job = heap_free (heap_free h (command job)) (stdin_lines job)"

section \<open>Command section\<close>

definition backslash :: char where
  "backslash = CHR 0x5C"

definition newline :: char where
  "newline = CHR 0x0A"

text \<open>
  The first loop of \<open>crond_crontab_parse_command\<close>: it stops at the terminator or at
  the first \<open>%\<close> whose preceding byte is not a backslash. The result is the final
  \<open>i\<close> and \<open>stdin_start_idx\<close>, which stays \<open>SIZE_MAX\<close> when no such \<open>%\<close> exists.
\<close>

function find_stdin_start :: "string \<Rightarrow> nat \<Rightarrow> nat \<times> nat" where
  "find_stdin_start line i =
     (if char_at line i \<noteq> NUL then
        (if char_at line i = CHR ''%'' \<and> i > 0 \<and> char_at line (i - 1) \<noteq> backslash
         then (i, i + 1)
         else find_stdin_start line (i + 1))
      else (i, SIZE_MAX))"
  by pat_completeness auto
termination
  by (relation "measure (\<lambda>(line, i). length line - i)")
     (auto dest: char_at_not_NUL)

declare find_stdin_start.simps [simp del]

text \<open>
  The second loop rewrites the copied payload in place: \<open>i\<close> is the write index and
  \<open>i_fwd\<close> the read index. The result is the buffer and the final \<open>i\<close>.
\<close>

function stdin_unescape_loop :: "char list \<Rightarrow> nat \<Rightarrow> nat \<Rightarrow> char list \<times> nat" where
  "stdin_unescape_loop s i i_fwd =
     (if char_at s i_fwd \<noteq> NUL then
        (case (if char_at s i_fwd = backslash \<and> char_at s (i_fwd + 1) \<noteq> NUL
               then (s, i_fwd + 1)
               else if char_at s i_fwd = CHR ''%''
               then (s[i_fwd := newline], i_fwd)
               else (s, i_fwd)) of
           (s1, f1) \<Rightarrow> stdin_unescape_loop (s1[i := char_at s1 f1]) (i + 1) (f1 + 1))
      else (s, i))"
  by pat_completeness auto
termination
  apply (relation "measure (\<lambda>(s, i, i_fwd). length s - i_fwd)")
   apply simp
  apply (frule char_at_not_NUL)
  apply (auto split: if_splits)
  done

declare stdin_unescape_loop.simps [simp del]

definition crond_crontab_parse_command ::
  "(nat \<Rightarrow> bool) \<Rightarrow> heap \<Rightarrow> string \<Rightarrow> nat \<Rightarrow> crond_job \<Rightarrow> bool \<times> crond_job \<times> heap" where
  "crond_crontab_parse_command ok h line line_idx job =
     (case find_stdin_start line line_idx of (i, stdin_start_idx) \<Rightarrow>
      case strndup ok h line line_idx (i - line_idx) of (cmd, h1) \<Rightarrow>
        if cmd = None
        then (False, job\<lparr>stdin_lines_len := 0, command := None\<rparr>, h1)
        else if stdin_start_idx \<noteq> SIZE_MAX then
          (case strdup ok h1 line stdin_start_idx of (sl, h2) \<Rightarrow>
             (case sl of
                None \<Rightarrow>
                  (False, job\<lparr>stdin_lines_len := 0, command := None, stdin_lines := None\<rparr>,
                   heap_free h2 cmd)
              | Some a \<Rightarrow>
                  (case stdin_unescape_loop (c_string_at line stdin_start_idx @ [NUL]) 0 0 of
                     (s, i') \<Rightarrow>
                       (True,
                        job\<lparr>stdin_lines_len := i' + 1, command := cmd, stdin_lines := sl\<rparr>,
                        h2\<lparr>cells := (cells h2)(a \<mapsto> s[i' := newline])\<rparr>))))
        else (True, job\<lparr>stdin_lines_len := 0, command := cmd\<rparr>, h1))"

section \<open>Schedule store\<close>

record timespec =
  tv_sec :: int
  tv_nsec :: int

text \<open>
  The members of \<open>struct crond\<close> that the parser, the store and the change detector
  use. \<open>job_list\<close> holds the \<open>num_jobs\<close> descriptors of the allocated array.
\<close>

record crond =
  status_code :: int
  mtime_crontab :: timespec
  job_list :: "crond_job list"
  num_jobs :: nat

definition EXIT_FAILURE :: int where
  "EXIT_FAILURE = 1"

definition crond_errx_noexit :: "crond \<Rightarrow> crond" where
  "crond_errx_noexit crond = crond\<lparr>status_code := EXIT_FAILURE\<rparr>"

text \<open>
  \<open>si_mul_size_t\<close> of cron.c: the wrap indicator and the product modulo \<open>2 ^ 64\<close>.
  The block under \<open>CRON_TEST\<close>, which lets the test suite force the wrap indicator,
  is not compiled into the daemon and is left out.
\<close>

definition si_mul_size_t :: "nat \<Rightarrow> nat \<Rightarrow> int \<times> nat" where
  "si_mul_size_t a b =
     (if b \<noteq> 0 \<and> a > SIZE_MAX div b then 1 else 0, (a * b) mod 2 ^ 64)"

text \<open>
  \<open>crond_reallocarray\<close> on the job array: NULL when the size wraps or \<open>realloc\<close>
  fails, in which case the old array is untouched; otherwise the array, its old
  elements kept.
\<close>

definition crond_reallocarray ::
  "(nat \<Rightarrow> bool) \<Rightarrow> heap \<Rightarrow> crond_job list \<Rightarrow> nat \<Rightarrow> nat \<Rightarrow> crond_job list option \<times> heap" where
  "crond_reallocarray ok h arr nmemb size_elem =
     (case si_mul_size_t nmemb size_elem of (wraps, size_mul) \<Rightarrow>
        if wraps \<noteq> 0 then (None, h)
        else if ok (brk h) then (Some arr, h\<lparr>brk := brk h + 1\<rparr>)
        else (None, h\<lparr>brk := brk h + 1\<rparr>))"

definition crond_job_append ::
  "(nat \<Rightarrow> bool) \<Rightarrow> heap \<Rightarrow> crond \<Rightarrow> crond_job \<Rightarrow> bool \<times> crond \<times> heap" where
  "crond_job_append ok h crond job =
     (case crond_reallocarray ok h (job_list crond) (size_add (num_jobs crond) 1)
             sizeof_crond_job of
        (None, h') \<Rightarrow> (False, crond_errx_noexit crond, h')
      | (Some new_job_list, h') \<Rightarrow>
          (True,
           crond\<lparr>job_list := new_job_list @ [job],
                 num_jobs := size_add (num_jobs crond) 1\<rparr>,
           h'))"

fun job_list_free_loop :: "heap \<Rightarrow> crond_job list \<Rightarrow> heap" where
  "job_list_free_loop h [] = h"
| "job_list_free_loop h (job # jobs) = job_list_free_loop (crond_job_free h job) jobs"

definition crond_job_list_free :: "heap \<Rightarrow> crond \<Rightarrow> crond \<times> heap" where
  "crond_job_list_free h crond =
     (crond\<lparr>job_list := [], num_jobs := 0\<rparr>, job_list_free_loop h (job_list crond))"

section \<open>Line parser\<close>

text \<open>\<open>strncmp(&line[i], str, strlen(str)) == 0\<close> for a literal \<open>str\<close> without NUL.\<close>

fun strncmp_eq :: "string \<Rightarrow> nat \<Rightarrow> string \<Rightarrow> bool" where
  "strncmp_eq line i [] = True"
| "strncmp_eq line i (c # str) = (char_at line i = c \<and> strncmp_eq line (i + 1) str)"

text \<open>
  The preset branch of \<open>crond_crontab_parse_line\<close>, entered with \<open>i\<close> just after the
  \<open>@\<close>: validity of the line, the index after the token and the boolean region.
\<close>

definition parse_special :: "string \<Rightarrow> nat \<Rightarrow> bool list \<Rightarrow> bool \<times> nat \<times> bool list" where
  "parse_special line i mem =
     (if strncmp_eq line i ''yearly'' \<or> strncmp_eq line i ''annually'' then
        (let m = crond_set_field_range mem minute_field 0 0;
             m = crond_set_field_range m hour_field 0 0;
             m = crond_set_field_range m day_field 0 0;
             m = crond_set_field_range m month_field 0 0;
             m = crond_set_field_range m weekday_field 0 sizeof_weekday
         in (True,
             if char_at line i = CHR ''y'' then i + length ''yearly''
             else i + length ''annually'', m))
      else if strncmp_eq line i ''monthly'' then
        (let m = crond_set_field_range mem minute_field 0 0;
             m = crond_set_field_range m hour_field 0 0;
             m = crond_set_field_range m day_field 0 0;
             m = crond_set_field_range m month_field 0 sizeof_month;
             m = crond_set_field_range m weekday_field 0 sizeof_weekday
         in (True, i + length ''monthly'', m))
      else if strncmp_eq line i ''weekly'' then
        (let m = crond_set_field_range mem minute_field 0 0;
             m = crond_set_field_range m hour_field 0 0;
             m = crond_set_field_range m day_field 0 sizeof_day;
             m = crond_set_field_range m month_field 0 sizeof_month;
             m = crond_set_field_range m weekday_field 0 0
         in (True, i + length ''weekly'', m))
      else if strncmp_eq line i ''daily'' \<or> strncmp_eq line i ''midnight'' then
        (let m = crond_set_field_range mem minute_field 0 0;
             m = crond_set_field_range m hour_field 0 0;
             m = crond_set_field_range m day_field 0 sizeof_day;
             m = crond_set_field_range m month_field 0 sizeof_month;
             m = crond_set_field_range m weekday_field 0 sizeof_weekday
         in (True,
             if char_at line i = CHR ''d'' then i + length ''daily''
             else i + length ''midnight'', m))
      else if strncmp_eq line i ''hourly'' then
        (let m = crond_set_field_range mem minute_field 0 0;
             m = crond_set_field_range m hour_field 0 sizeof_hour;
             m = crond_set_field_range m day_field 0 sizeof_day;
             m = crond_set_field_range m month_field 0 sizeof_month;
             m = crond_set_field_range m weekday_field 0 sizeof_weekday
         in (True, i + length ''hourly'', m))
      else (False, i, mem))"

text \<open>
  The five-field branch: the five calls are joined by \<open>||\<close>, so the first field that
  fails ends the evaluation.
\<close>

definition parse_five_fields :: "string \<Rightarrow> nat \<Rightarrow> bool list \<Rightarrow> bool \<times> nat \<times> bool list" where
  "parse_five_fields line i mem =
     (case crond_parse_field_int line i mem minute_field sizeof_minute 0 of (rc1, i1, m1) \<Rightarrow>
      if rc1 < 0 then (False, i1, m1) else
      case crond_parse_field_int line i1 m1 hour_field sizeof_hour 0 of (rc2, i2, m2) \<Rightarrow>
      if rc2 < 0 then (False, i2, m2) else
      case crond_parse_field_int line i2 m2 day_field sizeof_day 1 of (rc3, i3, m3) \<Rightarrow>
      if rc3 < 0 then (False, i3, m3) else
      case crond_parse_field_int line i3 m3 month_field sizeof_month 1 of (rc4, i4, m4) \<Rightarrow>
      if rc4 < 0 then (False, i4, m4) else
      case crond_parse_field_int line i4 m4 weekday_field sizeof_weekday 0 of (rc5, i5, m5) \<Rightarrow>
      if rc5 < 0 then (False, i5, m5) else (True, i5, m5))"

text \<open>The descriptor after \<open>memset(&job, 0, sizeof(job))\<close>.\<close>

definition zero_job :: crond_job where
  "zero_job = \<lparr>command = None, stdin_lines = None, stdin_lines_len = 0,
               bits = replicate sizeof_bits False\<rparr>"

text \<open>
  The block of \<open>crond_crontab_parse_line\<close> guarded by \<open>valid_line == true\<close>: the
  command is parsed and the job appended; when either step fails the caller frees
  the job's buffers with \<open>crond_job_free\<close>.
\<close>

definition parse_line_valid ::
  "(nat \<Rightarrow> bool) \<Rightarrow> heap \<Rightarrow> crond \<Rightarrow> string \<Rightarrow> nat \<Rightarrow> bool list \<Rightarrow> crond \<times> heap" where
  "parse_line_valid ok h crond line i mem =
     (case crond_crontab_parse_blank line i of (nb, i2) \<Rightarrow>
      case crond_crontab_parse_command ok h line i2 (zero_job\<lparr>bits := mem\<rparr>) of
        (parsed, job, h1) \<Rightarrow>
          if \<not> parsed then (crond, crond_job_free h1 job)
          else
            (case crond_job_append ok h1 crond job of
               (appended, crond', h2) \<Rightarrow>
                 if \<not> appended then (crond', crond_job_free h2 job)
                 else (crond', h2)))"

definition crond_crontab_parse_line ::
  "(nat \<Rightarrow> bool) \<Rightarrow> heap \<Rightarrow> crond \<Rightarrow> string \<Rightarrow> crond \<times> heap" where
  "crond_crontab_parse_line ok h crond line =
     (case crond_crontab_parse_blank line 0 of (nb, i) \<Rightarrow>
      if char_at line i \<noteq> NUL \<and> char_at line i \<noteq> CHR ''#'' then
        (case (if char_at line i = CHR ''@''
               then parse_special line (i + 1) (bits zero_job)
               else parse_five_fields line i (bits zero_job)) of
           (valid_line, i1, mem) \<Rightarrow>
             if valid_line then parse_line_valid ok h crond line i1 mem
             else (crond, h))
      else (crond, h))"

section \<open>Change detector and reparse\<close>

datatype stat_result = Stat_ok timespec | Stat_err int

definition ENOENT :: int where
  "ENOENT = 2"

text \<open>
  \<open>crond_crontab_has_changed\<close>, given what \<open>stat\<close> returns: the modification time on
  success, \<open>errno\<close> on failure. \<open>memcmp\<close> over the two members of the timestamp is
  inequality of the pair.
\<close>

definition crond_crontab_has_changed :: "crond \<Rightarrow> stat_result \<Rightarrow> bool \<times> crond" where
  "crond_crontab_has_changed crond sb =
     (case sb of
        Stat_ok st_mtim \<Rightarrow>
          if mtime_crontab crond \<noteq> st_mtim
          then (True, crond\<lparr>mtime_crontab := st_mtim\<rparr>)
          else (False, crond)
      | Stat_err errno \<Rightarrow>
          if errno = ENOENT then
            (if tv_sec (mtime_crontab crond) \<noteq> 0 \<or> tv_nsec (mtime_crontab crond) \<noteq> 0
             then (True, crond\<lparr>mtime_crontab := \<lparr>tv_sec = 0, tv_nsec = 0\<rparr>\<rparr>)
             else (False, crond))
          else (False, crond_errx_noexit crond))"

text \<open>
  \<open>getline\<close> on the unread bytes of the file: the bytes up to and including the
  first newline, or all of them when there is none, and the bytes that remain.
\<close>

fun getline :: "char list \<Rightarrow> char list \<times> char list" where
  "getline [] = ([], [])"
| "getline (c # cs) =
     (if c = newline then ([c], cs)
      else (case getline cs of (l, r) \<Rightarrow> (c # l, r)))"

lemma getline_rest: "getline bs = (l, r) \<Longrightarrow> bs \<noteq> [] \<Longrightarrow> length r < length bs"
  by (induction bs arbitrary: l r) (auto split: if_splits prod.splits, force)

text \<open>
  The loop \<open>while((read = getline(...)) != -1)\<close>: \<open>getline\<close> returns -1 when no byte
  is left; otherwise the byte at \<open>read - 1\<close> is overwritten with NUL and the buffer is
  parsed.
\<close>

function reparse_loop :: "(nat \<Rightarrow> bool) \<Rightarrow> heap \<Rightarrow> crond \<Rightarrow> char list \<Rightarrow> crond \<times> heap" where
  "reparse_loop ok h crond fp =
     (if fp = [] then (crond, h)
      else (case getline fp of (line, rest) \<Rightarrow>
              (case crond_crontab_parse_line ok h crond
                      (if length line \<noteq> 0 then line[length line - 1 := NUL] else line) of
                 (crond', h') \<Rightarrow> reparse_loop ok h' crond' rest)))"
  by pat_completeness auto
termination
  by (relation "measure (\<lambda>(ok, h, crond, fp). length fp)")
     (auto dest: getline_rest [OF sym])

declare reparse_loop.simps [simp del]

text \<open>
  \<open>crond_crontab_reparse\<close>. The environment gives the result of \<open>stat\<close>, the bytes
  \<open>fopen\<close> and \<open>getline\<close> deliver (\<open>None\<close> when \<open>fopen\<close> fails), whether the stream
  ended on a read error, and whether \<open>fclose\<close> succeeds.
\<close>

record file_env =
  stat_res :: stat_result
  fopen_res :: "char list option"
  ferror_res :: bool
  fclose_ok :: bool

definition crond_crontab_reparse ::
  "(nat \<Rightarrow> bool) \<Rightarrow> file_env \<Rightarrow> heap \<Rightarrow> crond \<Rightarrow> crond \<times> heap" where
  "crond_crontab_reparse ok env h crond =
     (case crond_crontab_has_changed crond (stat_res env) of (changed, c1) \<Rightarrow>
      if changed then
        (case crond_job_list_free h c1 of (c2, h2) \<Rightarrow>
           (case fopen_res env of
              None \<Rightarrow> (c2, h2)
            | Some fp \<Rightarrow>
                (case reparse_loop ok h2 c2 fp of (c3, h3) \<Rightarrow>
                   if ferror_res env then crond_job_list_free h3 (crond_errx_noexit c3)
                   else if \<not> fclose_ok env then crond_job_list_free h3 (crond_errx_noexit c3)
                   else (c3, h3))))
      else (c1, h))"

section \<open>Matcher\<close>

record tm =
  tm_min :: int
  tm_hour :: int
  tm_mday :: int
  tm_mon :: int
  tm_wday :: int

text \<open>
  \<open>field[i]\<close> for a signed index: the byte at offset \<open>field + i\<close> of the descriptor's
  boolean region. An access outside the region is outside the model (\<open>None\<close>).
\<close>

definition field_read :: "bool list \<Rightarrow> nat \<Rightarrow> int \<Rightarrow> bool option" where
  "field_read mem field i =
     (if 0 \<le> int field + i \<and> int field + i < int (length mem)
      then Some (mem ! nat (int field + i)) else None)"

text \<open>
  The short-circuit \<open>&&\<close> on accesses that may leave the model. The matcher reads
  the broken-down time through \<open>crond->tm\<close>; the model takes it as the argument \<open>t\<close>.
\<close>

definition and_then :: "bool option \<Rightarrow> bool option \<Rightarrow> bool option" where
  "and_then a b = (case a of None \<Rightarrow> None | Some False \<Rightarrow> Some False | Some True \<Rightarrow> b)"

definition crond_job_should_run :: "tm \<Rightarrow> crond_job \<Rightarrow> bool option" where
  "crond_job_should_run t job =
     and_then (field_read (bits job) weekday_field (tm_wday t))
    (and_then (field_read (bits job) month_field (tm_mon t - 1))
    (and_then (field_read (bits job) day_field (tm_mday t - 1))
    (and_then (field_read (bits job) hour_field (tm_hour t))
              (field_read (bits job) minute_field (tm_min t)))))"



text \<open>The ranges POSIX gives the members of a broken-down time.\<close>

definition valid_tm :: "tm \<Rightarrow> bool" where
  "valid_tm t =
     (0 \<le> tm_min t \<and> tm_min t \<le> 59 \<and> 0 \<le> tm_hour t \<and> tm_hour t \<le> 23 \<and>
      1 \<le> tm_mday t \<and> tm_mday t \<le> 31 \<and> 0 \<le> tm_mon t \<and> tm_mon t \<le> 11 \<and>
      0 \<le> tm_wday t \<and> tm_wday t \<le> 6)"

section \<open>Stdin payload, as the specification words it\<close>

text \<open>
  The transformation of the payload in the specification's words, to be compared
  with the in-place loop of the source: read left to right, a backslash followed by
  a byte becomes that byte alone, any other \<open>%\<close> becomes a newline, every other byte
  is kept (a backslash that ends the text has no byte after it and is kept).
\<close>

fun payload_spec :: "string \<Rightarrow> string" where
  "payload_spec [] = []"
| "payload_spec [c] = [if c = CHR ''%'' then newline else c]"
| "payload_spec (c # x # rest) =
     (if c = backslash then x # payload_spec rest
      else (if c = CHR ''%'' then newline else c) # payload_spec (x # rest))"

text \<open>
  The split of the command section in the same one-pass reading: a backslash takes
  the byte after it with it, and the first \<open>%\<close> that is not taken in this way ends the
  command. The result is the command and, when there is such a \<open>%\<close>, the text after it.
\<close>

fun split_spec :: "string \<Rightarrow> string \<times> string option" where
  "split_spec [] = ([], None)"
| "split_spec [c] = (if c = CHR ''%'' then ([], Some []) else ([c], None))"
| "split_spec (c # x # rest) =
     (if c = CHR ''%'' then ([], Some (x # rest))
      else if c = backslash then (case split_spec rest of (cmd, p) \<Rightarrow> (c # x # cmd, p))
      else (case split_spec (x # rest) of (cmd, p) \<Rightarrow> (c # cmd, p)))"

text \<open>
  No \<open>%\<close> of \<open>cmd\<close> is unescaped, where a \<open>%\<close> counts as escaped when the byte before it
  is a backslash and \<open>prev\<close> is the byte before \<open>cmd\<close>.
\<close>

fun unescaped_percent_free :: "char \<Rightarrow> string \<Rightarrow> bool" where
  "unescaped_percent_free prev [] = True"
| "unescaped_percent_free prev (c # cs) =
     ((c = CHR ''%'' \<longrightarrow> prev = backslash) \<and> unescaped_percent_free c cs)"

section \<open>Presets and their expansions\<close>

text \<open>
  The preset tokens of \<open>crond_crontab_parse_line\<close> and, for each, the five-field text
  that the comment of its branch gives as its meaning.
\<close>

datatype preset = Yearly | Annually | Monthly | Weekly | Daily | Midnight | Hourly

fun preset_token :: "preset \<Rightarrow> string" where
  "preset_token Yearly = ''yearly''"
| "preset_token Annually = ''annually''"
| "preset_token Monthly = ''monthly''"
| "preset_token Weekly = ''weekly''"
| "preset_token Daily = ''daily''"
| "preset_token Midnight = ''midnight''"
| "preset_token Hourly = ''hourly''"

fun preset_expansion :: "preset \<Rightarrow> string" where
  "preset_expansion Yearly = ''0 0 1 1 *''"
| "preset_expansion Annually = ''0 0 1 1 *''"
| "preset_expansion Monthly = ''0 0 1 * *''"
| "preset_expansion Weekly = ''0 0 * * 0''"
| "preset_expansion Daily = ''0 0 * * *''"
| "preset_expansion Midnight = ''0 0 * * *''"
| "preset_expansion Hourly = ''0 * * * *''"

section \<open>Field texts\<close>

text \<open>
  The text of a field number is one or two decimal digits; its value is what
  \<open>crond_strtoul_field\<close> computes from the zero-filled three-byte buffer the parser
  copies the digits into.
\<close>

definition is_field_number :: "string \<Rightarrow> bool" where
  "is_field_number ds = ((length ds = 1 \<or> length ds = 2) \<and> list_all isdigit ds)"

definition field_number :: "string \<Rightarrow> nat" where
  "field_number ds = crond_strtoul_field (ds @ replicate (3 - length ds) NUL)"

text \<open>One boolean region keeps the set elements of another.\<close>

definition keeps_bits :: "bool list \<Rightarrow> bool list \<Rightarrow> bool" where
  "keeps_bits mem mem' = (length mem' = length mem \<and> (\<forall>k < length mem. mem ! k \<longrightarrow> mem' ! k))"

section \<open>Basic facts\<close>

lemma field_defs:
  "minute_field = 0" "hour_field = 60" "day_field = 84" "month_field = 115"
  "weekday_field = 127" "pad_field = 134"
  "sizeof_minute = 60" "sizeof_hour = 24" "sizeof_day = 31" "sizeof_month = 12"
  "sizeof_weekday = 7" "sizeof_pad = 2" "sizeof_bits = 136"
  by (simp_all add: minute_field_def hour_field_def day_field_def month_field_def
      weekday_field_def pad_field_def sizeof_minute_def sizeof_hour_def sizeof_day_def
      sizeof_month_def sizeof_weekday_def sizeof_pad_def sizeof_bits_def)

lemma char_at_Nil [simp]: "char_at [] i = NUL"
  by (simp add: char_at_def)

lemma char_at_Cons_0 [simp]: "char_at (c # cs) 0 = c"
  by (simp add: char_at_def)

lemma char_at_Cons_Suc [simp]: "char_at (c # cs) (Suc n) = char_at cs n"
  by (simp add: char_at_def)

lemma char_at_Cons_1 [simp]: "char_at (c # cs) 1 = char_at cs 0"
  by (simp add: char_at_def)

lemma char_at_Cons_numeral [simp]:
  "char_at (c # cs) (numeral k) = char_at cs (pred_numeral k)"
  by (simp add: char_at_def numeral_eq_Suc)

lemma set_field_range_loop_length [simp]:
  "length (set_field_range_loop mem f i e) = length mem"
  by (induction mem f i e rule: set_field_range_loop.induct)
     (subst set_field_range_loop.simps, simp)

text \<open>The fill loop sets exactly the elements \<open>start..end\<close> of the array and keeps the rest.\<close>

lemma set_field_range_loop_nth:
  "k < length mem \<Longrightarrow>
   set_field_range_loop mem f i e ! k = (mem ! k \<or> (f + i \<le> k \<and> k \<le> f + e))"
proof (induction mem f i e rule: set_field_range_loop.induct)
  case (1 mem field i end_idx)
  show ?case
  proof (cases "i \<le> end_idx")
    case True
    have ih: "set_field_range_loop (mem[field + i := True]) field (i + 1) end_idx ! k =
        (mem[field + i := True] ! k \<or> (field + (i + 1) \<le> k \<and> k \<le> field + end_idx))"
      using 1 True by simp
    have upd: "mem[field + i := True] ! k = (mem ! k \<or> k = field + i)"
      by (cases "k = field + i") (use 1(2) in simp_all)
    have "set_field_range_loop mem field i end_idx =
        set_field_range_loop (mem[field + i := True]) field (i + 1) end_idx"
      using True by (subst set_field_range_loop.simps) simp
    then show ?thesis
      using ih upd True by auto
  next
    case False
    then show ?thesis
      by (subst set_field_range_loop.simps) auto
  qed
qed

lemma crond_set_field_range_length [simp]:
  "length (crond_set_field_range mem f s e) = length mem"
  by (simp add: crond_set_field_range_def)

lemma crond_set_field_range_nth:
  "k < length mem \<Longrightarrow>
   crond_set_field_range mem f s e ! k = (mem ! k \<or> (f + s \<le> k \<and> k \<le> f + e))"
  by (simp add: crond_set_field_range_def set_field_range_loop_nth)

text \<open>Equations that let the simplifier run the parser on a concrete line.\<close>

lemmas parse_eval =
  isdigit_def isblank_def NUL_def size_sub_def SIZE_MAX_def crond_strtoul_field_def
  scan_digits_def field_fill_def parse_field_item_def parse_field_items.simps
  parse_blank_loop.simps crond_parse_field_int_def crond_crontab_parse_blank_def

lemmas command_eval =
  crond_crontab_parse_command_def find_stdin_start.simps strndup_def strdup_def heap_alloc_def
  c_string_at_def backslash_def newline_def stdin_unescape_loop.simps

lemmas append_eval =
  crond_job_append_def crond_reallocarray_def si_mul_size_t_def size_add_def
  sizeof_crond_job_def crond_errx_noexit_def EXIT_FAILURE_def

lemmas line_eval =
  crond_crontab_parse_line_def parse_line_valid_def parse_five_fields_def parse_special_def
  zero_job_def field_defs crond_job_free_def heap_free_def

lemma timespec_nonzero:
  "(ts \<noteq> \<lparr>tv_sec = 0, tv_nsec = 0\<rparr>) = (tv_sec ts \<noteq> 0 \<or> tv_nsec ts \<noteq> 0)"
  by (cases ts) simp

lemma heap_alloc_cells:
  "heap_alloc ok h buf = (p, h') \<Longrightarrow>
     brk h' = brk h + 1 \<and>
     (p = None \<and> cells h' = cells h \<or> p = Some (brk h) \<and> cells h' = (cells h)(brk h \<mapsto> buf))"
  by (auto simp: heap_alloc_def split: if_splits)

lemma parse_command_buffers:
  assumes "crond_crontab_parse_command ok h line i job0 = (True, job, h1)"
    and "stdin_lines job0 = None"
  shows "command job \<noteq> None"
    and "\<forall>a. Some a \<noteq> command job \<and> Some a \<noteq> stdin_lines job \<longrightarrow> cells h1 a = cells h a"
    and "bits job = bits job0"
  using assms
  by (auto simp: crond_crontab_parse_command_def strndup_def strdup_def
           split: prod.splits if_splits option.splits dest!: heap_alloc_cells)

lemma crond_job_append_fails:
  assumes "fst (si_mul_size_t (size_add (num_jobs crond) 1) sizeof_crond_job) \<noteq> 0 \<or> \<not> ok (brk h)"
  shows "\<exists>h'. crond_job_append ok h crond job = (False, crond\<lparr>status_code := EXIT_FAILURE\<rparr>, h')
           \<and> cells h' = cells h"
  using assms
  by (auto simp: crond_job_append_def crond_reallocarray_def crond_errx_noexit_def
           split: prod.splits if_splits option.splits)

lemma char_at_append [simp]: "char_at (pre @ xs) (length pre + k) = char_at xs k"
  by (simp add: char_at_def nth_append)

lemma char_at_append0 [simp]: "char_at (pre @ xs) (length pre) = char_at xs 0"
  using char_at_append [of pre xs 0] by simp

lemma char_at_append_ge:
  "length pre \<le> j \<Longrightarrow> char_at (pre @ xs) j = char_at xs (j - length pre)"
  by (auto simp: char_at_def nth_append)

lemma char_at_drop: "char_at (drop k line) j = char_at line (k + j)"
  by (auto simp: char_at_def)

lemma drop_eq_mono: "drop k l1 = drop k l2 \<Longrightarrow> k \<le> j \<Longrightarrow> drop j l1 = drop j l2"
  by (metis drop_drop le_add_diff_inverse2)

lemma drop_eq_char_at: "drop k l1 = drop k l2 \<Longrightarrow> k \<le> j \<Longrightarrow> char_at l1 j = char_at l2 j"
  by (metis char_at_drop le_add_diff_inverse)

lemma isdigit_not_NUL [simp]: "\<not> isdigit NUL"
  by (simp add: isdigit_def NUL_def)

lemma isdigit_not_dash [simp]: "\<not> isdigit (CHR ''-'')"
  by (simp add: isdigit_def)

lemma scan_digits_text:
  assumes "is_field_number da" and "length da = 2 \<or> \<not> isdigit (char_at rest 0)"
  shows "scan_digits (pre @ da @ rest) (length pre) =
           (da @ replicate (3 - length da) NUL, length da, length pre + length da)"
proof -
  from assms(1) consider a where "da = [a]" "isdigit a"
    | a b where "da = [a, b]" "isdigit a" "isdigit b"
    by (auto simp: is_field_number_def length_Suc_conv numeral_2_eq_2)
  then show ?thesis
  proof cases
    case 1
    with assms(2) show ?thesis
      by (simp add: scan_digits_def char_at_append_ge numeral_2_eq_2)
  next
    case 2
    then show ?thesis
      by (simp add: scan_digits_def char_at_append_ge)
  qed
qed

lemma parse_field_item_range:
  assumes "is_field_number da" and "is_field_number db"
    and "length db = 2 \<or> \<not> isdigit (char_at rest 0)"
  shows "parse_field_item (pre @ da @ ''-'' @ db @ rest) (length pre) rc mem field field_len offset =
           (False,
            fst (field_fill rc mem field field_len
                  (size_sub (field_number da) offset) (size_sub (field_number db) offset)),
            length pre + length da + 1 + length db,
            snd (field_fill rc mem field field_len
                  (size_sub (field_number da) offset) (size_sub (field_number db) offset)))"
proof -
  define L where "L = pre @ da @ ''-'' @ db @ rest"
  have s1: "scan_digits L (length pre) =
      (da @ replicate (3 - length da) NUL, length da, length pre + length da)"
    unfolding L_def using scan_digits_text [OF assms(1), of "''-'' @ db @ rest" pre] by simp
  have s2: "scan_digits L (length pre + length da + 1) =
      (db @ replicate (3 - length db) NUL, length db, length pre + length da + 1 + length db)"
    unfolding L_def using scan_digits_text [OF assms(2) assms(3), of "pre @ da @ ''-''"] by simp
  have dash: "char_at L (length pre + length da) = CHR ''-''"
    unfolding L_def using char_at_append0 [of "pre @ da" "''-'' @ db @ rest"] by simp
  have la: "length da \<noteq> 0" and lb: "length db \<noteq> 0"
    using assms(1,2) by (auto simp: is_field_number_def)
  have "parse_field_item L (length pre) rc mem field field_len offset =
           (False,
            fst (field_fill rc mem field field_len
                  (size_sub (field_number da) offset) (size_sub (field_number db) offset)),
            length pre + length da + 1 + length db,
            snd (field_fill rc mem field field_len
                  (size_sub (field_number da) offset) (size_sub (field_number db) offset)))"
    using la lb
    by (simp add: parse_field_item_def s1 s2 [simplified] dash field_number_def Let_def
             split: prod.splits)
  then show ?thesis
    by (simp add: L_def)
qed


lemma isdigit_not_star: "isdigit c \<Longrightarrow> c \<noteq> CHR ''*''"
  by (auto simp: isdigit_def)

lemma field_number_first_digit:
  "is_field_number da \<Longrightarrow> char_at (pre @ da @ rest) (length pre) \<noteq> CHR ''*''"
  by (cases da) (auto simp: is_field_number_def dest: isdigit_not_star)

text \<open>Suffix lemmas: the field parser reads the line only from its index on.\<close>

lemma parse_blank_loop_suffix:
  "drop k l1 = drop k l2 \<Longrightarrow> parse_blank_loop l1 k n = parse_blank_loop l2 k n"
proof (induction l1 k n rule: parse_blank_loop.induct)
  case (1 line line_idx num_blanks)
  have c: "char_at line line_idx = char_at l2 line_idx"
    using 1(2) by (rule drop_eq_char_at) simp
  have d: "drop (line_idx + 1) line = drop (line_idx + 1) l2"
    using 1(2) by (rule drop_eq_mono) simp
  show ?case
    using 1(1) c d
    by (subst parse_blank_loop.simps, subst (2) parse_blank_loop.simps) simp
qed

lemma scan_digits_suffix:
  "drop k l1 = drop k l2 \<Longrightarrow> scan_digits l1 k = scan_digits l2 k"
  using drop_eq_char_at [of k l1 l2 k] drop_eq_char_at [of k l1 l2 "k + 1"]
  by (simp add: scan_digits_def)

lemma parse_field_item_suffix:
  assumes "drop k l1 = drop k l2"
  shows "parse_field_item l1 k rc mem f fl off = parse_field_item l2 k rc mem f fl off"
proof -
  obtain dg i idx1 where s1: "scan_digits l1 k = (dg, i, idx1)"
    by (cases "scan_digits l1 k")
  then have s2: "scan_digits l2 k = (dg, i, idx1)"
    using scan_digits_suffix [OF assms] by simp
  have ge: "k \<le> idx1"
    using s1 by (rule scan_digits_idx)
  have c: "char_at l1 idx1 = char_at l2 idx1"
    using assms ge by (rule drop_eq_char_at)
  have "drop (idx1 + 1) l1 = drop (idx1 + 1) l2"
    using assms by (rule drop_eq_mono) (use ge in simp)
  then have s3: "scan_digits l1 (Suc idx1) = scan_digits l2 (Suc idx1)"
    using scan_digits_suffix [of "Suc idx1" l1 l2] by simp
  show ?thesis
    by (simp add: parse_field_item_def s1 s2 c s3)
qed

lemma parse_field_items_suffix:
  "drop k l1 = drop k l2 \<Longrightarrow>
   parse_field_items l1 k rc mem f fl off = parse_field_items l2 k rc mem f fl off"
proof (induction l1 k rc mem f fl off rule: parse_field_items.induct)
  case (1 line line_idx rc mem field field_len offset)
  obtain broke rc' idx' mem' where
    it: "parse_field_item line line_idx rc mem field field_len offset = (broke, rc', idx', mem')"
    by (cases "parse_field_item line line_idx rc mem field field_len offset")
  then have it2: "parse_field_item l2 line_idx rc mem field field_len offset = (broke, rc', idx', mem')"
    using parse_field_item_suffix [OF 1(2)] by simp
  have ge: "line_idx \<le> idx'"
    using it by (rule parse_field_item_idx)
  have c: "char_at line idx' = char_at l2 idx'"
    using 1(2) ge by (rule drop_eq_char_at)
  have d: "drop (idx' + 1) line = drop (idx' + 1) l2"
    using 1(2) by (rule drop_eq_mono) (use ge in simp)
  show ?case
  proof (cases "\<not> broke \<and> char_at line idx' = CHR '',''")
    case True
    then have "parse_field_items line (idx' + 1) rc' mem' field field_len offset =
               parse_field_items l2 (idx' + 1) rc' mem' field field_len offset"
      using "1.IH" it d by auto
    then show ?thesis
      using True it it2 c
      by (subst parse_field_items.simps, subst (2) parse_field_items.simps) simp
  next
    case False
    then show ?thesis
      using it it2 c
      by (subst parse_field_items.simps, subst (2) parse_field_items.simps) auto
  qed
qed

lemma parse_field_items_idx:
  "parse_field_items line k rc mem f fl off = (rc', idx, mem') \<Longrightarrow> k \<le> idx"
proof (induction line k rc mem f fl off arbitrary: rc' idx mem' rule: parse_field_items.induct)
  case (1 line line_idx rc mem field field_len offset)
  obtain broke rc1 idx1 mem1 where
    it: "parse_field_item line line_idx rc mem field field_len offset = (broke, rc1, idx1, mem1)"
    by (cases "parse_field_item line line_idx rc mem field field_len offset")
  have ge: "line_idx \<le> idx1"
    using it by (rule parse_field_item_idx)
  show ?case
  proof (cases "\<not> broke \<and> char_at line idx1 = CHR '',''")
    case True
    then have "parse_field_items line (idx1 + 1) rc1 mem1 field field_len offset = (rc', idx, mem')"
      using "1.prems" it by (subst (asm) parse_field_items.simps) simp
    then have "idx1 + 1 \<le> idx"
      using "1.IH" it True by auto
    then show ?thesis using ge by simp
  next
    case False
    then have "idx = idx1"
      using "1.prems" it by (subst (asm) parse_field_items.simps) (auto split: if_splits)
    then show ?thesis using ge by simp
  qed
qed

lemma crond_parse_field_int_suffix:
  assumes "drop k l1 = drop k l2"
  shows "crond_parse_field_int l1 k mem f fl off = crond_parse_field_int l2 k mem f fl off"
proof -
  have c: "char_at l1 k = char_at l2 k"
    using assms by (rule drop_eq_char_at) simp
  have blank: "\<And>j. k \<le> j \<Longrightarrow> crond_crontab_parse_blank l1 j = crond_crontab_parse_blank l2 j"
    unfolding crond_crontab_parse_blank_def
    by (rule parse_blank_loop_suffix) (rule drop_eq_mono [OF assms])
  show ?thesis
  proof (cases "char_at l1 k = CHR ''*''")
    case True
    then show ?thesis
      using c blank [of "k + 1"] by (simp add: crond_parse_field_int_def)
  next
    case False
    obtain rc idx mem' where r: "parse_field_items l1 k 0 mem f fl off = (rc, idx, mem')"
      by (cases "parse_field_items l1 k 0 mem f fl off")
    have ge: "k \<le> idx"
      using r by (rule parse_field_items_idx)
    show ?thesis
      using False c r parse_field_items_suffix [OF assms, of 0 mem f fl off] blank [OF ge]
      by (simp add: crond_parse_field_int_def)
  qed
qed


text \<open>The field parser only ever sets elements: what is set stays set.\<close>

lemma keeps_bits_refl [simp]: "keeps_bits mem mem"
  by (simp add: keeps_bits_def)

lemma keeps_bits_trans: "keeps_bits a b \<Longrightarrow> keeps_bits b c \<Longrightarrow> keeps_bits a c"
  by (simp add: keeps_bits_def)

lemma keeps_bits_set_field_range [simp]:
  "keeps_bits mem (crond_set_field_range mem f s e)"
  by (simp add: keeps_bits_def crond_set_field_range_nth)

lemma keeps_bits_field_fill:
  "field_fill rc mem f fl d1 d2 = (rc', mem') \<Longrightarrow> keeps_bits mem mem'"
  by (auto simp: field_fill_def Let_def split: prod.splits if_splits)

lemma keeps_bits_parse_field_item:
  "parse_field_item line k rc mem f fl off = (broke, rc', idx', mem') \<Longrightarrow> keeps_bits mem mem'"
  by (auto simp: parse_field_item_def Let_def split: prod.splits if_splits
           dest: keeps_bits_field_fill)

lemma keeps_bits_parse_field_items:
  "parse_field_items line k rc mem f fl off = (rc', idx, mem') \<Longrightarrow> keeps_bits mem mem'"
proof (induction line k rc mem f fl off arbitrary: rc' idx mem' rule: parse_field_items.induct)
  case (1 line line_idx rc mem field field_len offset)
  obtain broke rc1 idx1 mem1 where
    it: "parse_field_item line line_idx rc mem field field_len offset = (broke, rc1, idx1, mem1)"
    by (cases "parse_field_item line line_idx rc mem field field_len offset")
  have k1: "keeps_bits mem mem1"
    using it by (rule keeps_bits_parse_field_item)
  show ?case
  proof (cases "\<not> broke \<and> char_at line idx1 = CHR '',''")
    case True
    then have "parse_field_items line (idx1 + 1) rc1 mem1 field field_len offset = (rc', idx, mem')"
      using "1.prems" it by (subst (asm) parse_field_items.simps) simp
    then have "keeps_bits mem1 mem'"
      using "1.IH" it True by auto
    then show ?thesis using k1 by (rule keeps_bits_trans [rotated])
  next
    case False
    then have "mem' = mem1"
      using "1.prems" it by (subst (asm) parse_field_items.simps) (auto split: if_splits)
    then show ?thesis using k1 by simp
  qed
qed

lemma parse_field_items_unfold:
  assumes "parse_field_item line k rc mem f fl off = (False, rc', idx', mem')"
  shows "parse_field_items line k rc mem f fl off =
           (if char_at line idx' = CHR '','' then parse_field_items line (idx' + 1) rc' mem' f fl off
            else (rc', idx', mem'))"
  using assms by (subst parse_field_items.simps) simp

lemma parse_field_items_keeps_bit:
  assumes "parse_field_item line k rc mem f fl off = (False, rc', idx', mem')"
    and "j < length mem'" and "mem' ! j"
  shows "snd (snd (parse_field_items line k rc mem f fl off)) ! j"
proof (cases "char_at line idx' = CHR '',''")
  case True
  obtain r i m where r: "parse_field_items line (idx' + 1) rc' mem' f fl off = (r, i, m)"
    by (cases "parse_field_items line (idx' + 1) rc' mem' f fl off")
  then have "keeps_bits mem' m"
    by (rule keeps_bits_parse_field_items)
  then show ?thesis
    using assms r True by (simp add: parse_field_items_unfold [OF assms(1)] keeps_bits_def)
next
  case False
  then show ?thesis
    using assms by (simp add: parse_field_items_unfold [OF assms(1)])
qed

lemma c_string_at_NUL:
  assumes that: "char_at s f = NUL"
  shows "c_string_at s f = []"
proof (cases "f < length s")
  case True
  then have "drop f s = s ! f # drop (Suc f) s"
    by (simp add: Cons_nth_drop_Suc)
  then show ?thesis
    using True that by (simp add: c_string_at_def char_at_def)
next
  case False
  then show ?thesis
    by (simp add: c_string_at_def)
qed

lemma c_string_at_step:
  "char_at s f \<noteq> NUL \<Longrightarrow> c_string_at s f = char_at s f # c_string_at s (f + 1)"
  by (frule char_at_not_NUL) (simp add: c_string_at_def char_at_def Cons_nth_drop_Suc [symmetric])

lemma c_string_at_update [simp]:
  "i < g \<Longrightarrow> c_string_at (s[i := x]) g = c_string_at s g"
  by (simp add: c_string_at_def)

lemma char_at_update [simp]: "i \<noteq> j \<Longrightarrow> char_at (s[i := x]) j = char_at s j"
  by (simp add: char_at_def)

lemma take_Suc_update:
  "i < length s \<Longrightarrow> take (Suc i) (s[i := x]) = take i s @ [x]"
  by (simp add: take_Suc_conv_app_nth)

lemma stdin_unescape_loop_correct:
  "i \<le> f \<Longrightarrow> stdin_unescape_loop s i f = (s', i') \<Longrightarrow>
     length s' = length s \<and> i \<le> i' \<and> i' \<le> f + length (c_string_at s f) \<and>
     take i' s' = take i s @ payload_spec (c_string_at s f)"
proof (induction s i f arbitrary: s' i' rule: stdin_unescape_loop.induct)
  case (1 s i i_fwd)
  show ?case
  proof (cases "char_at s i_fwd = NUL")
    case True
    then have "s' = s" "i' = i"
      using "1.prems"(2) by (subst (asm) stdin_unescape_loop.simps, simp)+
    then show ?thesis
      using True "1.prems"(1) by (simp add: c_string_at_NUL)
  next
    case nz: False
    then have lt: "i_fwd < length s"
      by (rule char_at_not_NUL)
    have ilt: "i < length s"
      using lt "1.prems"(1) by simp
    have cs: "c_string_at s i_fwd = char_at s i_fwd # c_string_at s (i_fwd + 1)"
      using nz by (rule c_string_at_step)
    consider (esc) "char_at s i_fwd = backslash" "char_at s (i_fwd + 1) \<noteq> NUL"
      | (pct) "\<not> (char_at s i_fwd = backslash \<and> char_at s (i_fwd + 1) \<noteq> NUL)"
              "char_at s i_fwd = CHR ''%''"
      | (oth) "\<not> (char_at s i_fwd = backslash \<and> char_at s (i_fwd + 1) \<noteq> NUL)"
              "char_at s i_fwd \<noteq> CHR ''%''"
      by blast
    then show ?thesis
    proof cases
      case esc
      let ?x = "char_at s (i_fwd + 1)"
      let ?s2 = "s[i := ?x]"
      have step: "stdin_unescape_loop s i i_fwd = stdin_unescape_loop ?s2 (i + 1) (i_fwd + 1 + 1)"
        using nz esc by (subst stdin_unescape_loop.simps) simp
      then have r: "stdin_unescape_loop ?s2 (i + 1) (i_fwd + 1 + 1) = (s', i')"
        using "1.prems"(2) by simp
      have ih: "length s' = length ?s2 \<and> i + 1 \<le> i' \<and>
          i' \<le> i_fwd + 1 + 1 + length (c_string_at ?s2 (i_fwd + 1 + 1)) \<and>
          take i' s' = take (i + 1) ?s2 @ payload_spec (c_string_at ?s2 (i_fwd + 1 + 1))"
        using "1.IH" [of s "i_fwd + 1" s' i'] nz esc r "1.prems"(1) by simp
      have cs2: "c_string_at s (i_fwd + 1) = ?x # c_string_at s (i_fwd + 1 + 1)"
        using esc(2) by (rule c_string_at_step)
      have keep: "c_string_at ?s2 (i_fwd + 1 + 1) = c_string_at s (i_fwd + 1 + 1)"
        using "1.prems"(1) by simp
      show ?thesis
        using ih keep cs cs2 esc(1) ilt by (simp add: take_Suc_update)
    next
      case pct
      let ?s1 = "s[i_fwd := newline]"
      let ?s2 = "?s1[i := newline]"
      have rd: "char_at ?s1 i_fwd = newline"
        using lt by (simp add: char_at_def)
      have step: "stdin_unescape_loop s i i_fwd = stdin_unescape_loop ?s2 (i + 1) (i_fwd + 1)"
        using nz pct rd by (subst stdin_unescape_loop.simps) auto
      then have r: "stdin_unescape_loop ?s2 (i + 1) (i_fwd + 1) = (s', i')"
        using "1.prems"(2) by simp
      have ih: "length s' = length ?s2 \<and> i + 1 \<le> i' \<and>
          i' \<le> i_fwd + 1 + length (c_string_at ?s2 (i_fwd + 1)) \<and>
          take i' s' = take (i + 1) ?s2 @ payload_spec (c_string_at ?s2 (i_fwd + 1))"
        using "1.IH" [of ?s1 i_fwd s' i'] nz pct rd r "1.prems"(1) by auto
      have keep: "c_string_at ?s2 (i_fwd + 1) = c_string_at s (i_fwd + 1)"
        using "1.prems"(1) by simp
      have tk: "take (i + 1) ?s2 = take i s @ [newline]"
        using ilt "1.prems"(1) by (simp add: take_Suc_update)
      have ps: "payload_spec (c_string_at s i_fwd) = newline # payload_spec (c_string_at s (i_fwd + 1))"
        using cs pct by (cases "c_string_at s (i_fwd + 1)") (auto simp: backslash_def)
      show ?thesis
        using ih keep tk ps cs by simp
    next
      case oth
      let ?c = "char_at s i_fwd"
      let ?s2 = "s[i := ?c]"
      have step: "stdin_unescape_loop s i i_fwd = stdin_unescape_loop ?s2 (i + 1) (i_fwd + 1)"
        using nz oth by (subst stdin_unescape_loop.simps) auto
      then have r: "stdin_unescape_loop ?s2 (i + 1) (i_fwd + 1) = (s', i')"
        using "1.prems"(2) by simp
      have ih: "length s' = length ?s2 \<and> i + 1 \<le> i' \<and>
          i' \<le> i_fwd + 1 + length (c_string_at ?s2 (i_fwd + 1)) \<and>
          take i' s' = take (i + 1) ?s2 @ payload_spec (c_string_at ?s2 (i_fwd + 1))"
        using "1.IH" [of s i_fwd s' i'] nz oth r "1.prems"(1) by auto
      have keep: "c_string_at ?s2 (i_fwd + 1) = c_string_at s (i_fwd + 1)"
        using "1.prems"(1) by simp
      have tk: "take (i + 1) ?s2 = take i s @ [?c]"
        using ilt by (simp add: take_Suc_update)
      have ps: "payload_spec (c_string_at s i_fwd) = ?c # payload_spec (c_string_at s (i_fwd + 1))"
      proof (cases "c_string_at s (i_fwd + 1)")
        case Nil
        then show ?thesis using cs oth by simp
      next
        case (Cons y ys)
        then have "char_at s (i_fwd + 1) \<noteq> NUL"
          using c_string_at_NUL by fastforce
        then show ?thesis using cs oth Cons by auto
      qed
      show ?thesis
        using ih keep tk ps cs by simp
    qed
  qed
qed


lemma char_at_last: "pre \<noteq> [] \<Longrightarrow> char_at (pre @ xs) (length pre - Suc 0) = last pre"
  by (cases pre rule: rev_cases) (auto simp: char_at_def nth_append)

lemma takeWhile_no_NUL:
  "NUL \<notin> set xs \<Longrightarrow>
   takeWhile (\<lambda>c. c \<noteq> NUL) (xs @ ys) = xs @ takeWhile (\<lambda>c. c \<noteq> NUL) ys"
  by (induction xs) auto

lemma find_stdin_start_text:
  assumes "pre \<noteq> []" and "NUL \<notin> set cmd" and "unescaped_percent_free (last pre) cmd"
    and "last (pre @ cmd) \<noteq> backslash"
  shows "find_stdin_start (pre @ cmd @ CHR ''%'' # payload) (length pre) =
           (length pre + length cmd, length pre + length cmd + 1)"
  using assms
proof (induction cmd arbitrary: pre)
  case Nil
  then show ?case
    by (subst find_stdin_start.simps) (simp add: char_at_last NUL_def)
next
  case (Cons c cs)
  have "find_stdin_start ((pre @ [c]) @ cs @ CHR ''%'' # payload) (length (pre @ [c])) =
      (length (pre @ [c]) + length cs, length (pre @ [c]) + length cs + 1)"
    using Cons.prems by (intro Cons.IH) auto
  then have rec: "find_stdin_start (pre @ c # cs @ CHR ''%'' # payload) (length pre + 1) =
      (length pre + length (c # cs), length pre + length (c # cs) + 1)"
    by simp
  have "c \<noteq> NUL" using Cons.prems by auto
  moreover have "\<not> (c = CHR ''%'' \<and> last pre \<noteq> backslash)"
    using Cons.prems by auto
  ultimately show ?case
    using rec Cons.prems(1)
    by (subst find_stdin_start.simps) (auto simp: char_at_last)
qed

lemma c_string_at_append:
  "NUL \<notin> set xs \<Longrightarrow> c_string_at (pre @ xs) (length pre) = xs"
  using takeWhile_no_NUL [of xs "[]"] by (simp add: c_string_at_def)

lemma c_string_at_append_NUL:
  "NUL \<notin> set xs \<Longrightarrow> c_string_at (pre @ xs @ NUL # ys) (length pre) = xs"
  using takeWhile_no_NUL [of xs "NUL # ys"] by (simp add: c_string_at_def)

lemma payload_spec_plain:
  "CHR ''%'' \<notin> set p \<Longrightarrow> backslash \<notin> set p \<Longrightarrow> payload_spec p = p"
  by (induction p rule: payload_spec.induct) auto

lemma getline_no_newline: "newline \<notin> set bs \<Longrightarrow> getline bs = (bs, [])"
  by (induction bs) auto

lemma getline_decomp: "getline bs = (l, r) \<Longrightarrow> bs = l @ r"
  by (induction bs arbitrary: l r) (auto split: if_splits prod.splits)

lemma getline_append:
  "getline bs = (l, r) \<Longrightarrow> newline \<in> set bs \<Longrightarrow> getline (bs @ xs) = (l, r @ xs)"
  by (induction bs arbitrary: l r) (auto split: if_splits prod.splits)

lemma reparse_loop_Nil [simp]: "reparse_loop ok h crond [] = (crond, h)"
  by (subst reparse_loop.simps) simp

lemma reparse_loop_append:
  "pre = [] \<or> last pre = newline \<Longrightarrow>
   reparse_loop ok h crond (pre @ rest) =
     (case reparse_loop ok h crond pre of (c1, h1) \<Rightarrow> reparse_loop ok h1 c1 rest)"
proof (induction ok h crond pre rule: reparse_loop.induct)
  case (1 ok h crond fp)
  show ?case
  proof (cases "fp = []")
    case True
    then show ?thesis by simp
  next
    case False
    obtain l r where gl: "getline fp = (l, r)"
      by (cases "getline fp")
    have fp: "fp = l @ r"
      using gl by (rule getline_decomp)
    have nl: "newline \<in> set fp"
      using False 1(2) last_in_set by fastforce
    have gl2: "getline (fp @ rest) = (l, r @ rest)"
      using gl nl by (rule getline_append)
    have r: "r = [] \<or> last r = newline"
      using fp 1(2) False by (cases "r = []") auto
    obtain c' h' where pl: "crond_crontab_parse_line ok h crond
        (if length l \<noteq> 0 then l[length l - 1 := NUL] else l) = (c', h')"
      by (cases "crond_crontab_parse_line ok h crond
        (if length l \<noteq> 0 then l[length l - 1 := NUL] else l)")
    have ih: "reparse_loop ok h' c' (r @ rest) =
        (case reparse_loop ok h' c' r of (c1, h1) \<Rightarrow> reparse_loop ok h1 c1 rest)"
      using "1.IH" [OF False gl [symmetric] pl [symmetric] r] .
    have a: "reparse_loop ok h crond fp = reparse_loop ok h' c' r"
      using False gl pl by (subst reparse_loop.simps) simp
    have b: "reparse_loop ok h crond (fp @ rest) = reparse_loop ok h' c' (r @ rest)"
      using False gl2 pl by (subst reparse_loop.simps) simp
    show ?thesis
      using a b ih by simp
  qed
qed

lemma parse_blank_loop_closed:
  "parse_blank_loop line i n =
     (n + length (takeWhile isblank (drop i line)), i + length (takeWhile isblank (drop i line)))"
proof (induction line i n rule: parse_blank_loop.induct)
  case (1 line line_idx num_blanks)
  show ?case
  proof (cases "isblank (char_at line line_idx)")
    case True
    then have lt: "line_idx < length line"
      by (intro char_at_not_NUL) (auto simp: isblank_def NUL_def)
    then have d: "drop line_idx line = char_at line line_idx # drop (line_idx + 1) line"
      by (simp add: char_at_def Cons_nth_drop_Suc)
    show ?thesis
      using True 1 by (subst parse_blank_loop.simps) (simp add: d)
  next
    case False
    then have "takeWhile isblank (drop line_idx line) = []"
      by (cases "drop line_idx line")
         (auto simp: char_at_def hd_drop_conv_nth dest!: arg_cong [where f = hd] split: if_splits)
    then show ?thesis
      using False by (subst parse_blank_loop.simps) simp
  qed
qed

lemma crond_crontab_parse_blank_closed:
  "crond_crontab_parse_blank line i =
     (length (takeWhile isblank (drop i line)), i + length (takeWhile isblank (drop i line)))"
  by (simp add: crond_crontab_parse_blank_def parse_blank_loop_closed)

lemma drop_eq_char_at_shift:
  "drop a l1 = drop b l2 \<Longrightarrow> char_at l1 (a + k) = char_at l2 (b + k)"
  by (metis char_at_drop)

lemma drop_eq_shift:
  "drop a l1 = drop b l2 \<Longrightarrow> drop (a + k) l1 = drop (b + k) l2"
  by (metis add.commute drop_drop)

lemma find_stdin_start_shift:
  "0 < i1 \<Longrightarrow> 0 < i2 \<Longrightarrow> drop (i1 - 1) l1 = drop (i2 - 1) l2 \<Longrightarrow>
   \<exists>d. find_stdin_start l1 i1 =
          (i1 + d, if char_at l1 (i1 + d) = CHR ''%'' then i1 + d + 1 else SIZE_MAX) \<and>
       find_stdin_start l2 i2 =
          (i2 + d, if char_at l1 (i1 + d) = CHR ''%'' then i2 + d + 1 else SIZE_MAX) \<and>
       (char_at l1 (i1 + d) = CHR ''%'' \<longrightarrow> i1 + d < length l1 \<and> i2 + d < length l2)"
proof (induction l1 i1 arbitrary: i2 rule: find_stdin_start.induct)
  case (1 line i)
  have c0: "char_at line i = char_at l2 i2"
    using drop_eq_char_at_shift [OF "1.prems"(3), of 1] "1.prems"(1,2) by simp
  have cb: "char_at line (i - 1) = char_at l2 (i2 - 1)"
    using drop_eq_char_at_shift [OF "1.prems"(3), of 0] by simp
  show ?case
  proof (cases "char_at line i = NUL")
    case True
    have "find_stdin_start line i = (i, SIZE_MAX)"
      using True by (subst find_stdin_start.simps) simp
    moreover have "find_stdin_start l2 i2 = (i2, SIZE_MAX)"
      using True c0 by (subst find_stdin_start.simps) simp
    ultimately show ?thesis
      using True by (intro exI [of _ 0]) (simp add: NUL_def)
  next
    case nz: False
    show ?thesis
    proof (cases "char_at line i = CHR ''%'' \<and> char_at line (i - 1) \<noteq> backslash")
      case True
      have "find_stdin_start line i = (i, i + 1)"
        using True nz "1.prems"(1) by (subst find_stdin_start.simps) simp
      moreover have "find_stdin_start l2 i2 = (i2, i2 + 1)"
        using True nz c0 cb "1.prems"(2) by (subst find_stdin_start.simps) simp
      moreover have "i < length line" "i2 < length l2"
        using nz c0 by (auto intro: char_at_not_NUL)
      ultimately show ?thesis
        using True by (intro exI [of _ 0]) simp
    next
      case False
      have d: "drop (i + 1 - 1) line = drop (i2 + 1 - 1) l2"
        using drop_eq_shift [OF "1.prems"(3), of 1] "1.prems"(1,2) by simp
      from "1.IH" [OF nz _ _ _ d] False
      obtain d' where
        a: "find_stdin_start line (i + 1) =
          (i + 1 + d', if char_at line (i + 1 + d') = CHR ''%'' then i + 1 + d' + 1 else SIZE_MAX)"
        and b: "find_stdin_start l2 (i2 + 1) =
          (i2 + 1 + d', if char_at line (i + 1 + d') = CHR ''%'' then i2 + 1 + d' + 1 else SIZE_MAX)"
        and c: "char_at line (i + 1 + d') = CHR ''%'' \<longrightarrow>
          i + 1 + d' < length line \<and> i2 + 1 + d' < length l2"
        by auto
      have "find_stdin_start line i = find_stdin_start line (i + 1)"
        using False nz by (subst find_stdin_start.simps) auto
      moreover have "find_stdin_start l2 i2 = find_stdin_start l2 (i2 + 1)"
        using False nz c0 cb by (subst find_stdin_start.simps) auto
      ultimately show ?thesis
        using a b c by (intro exI [of _ "d' + 1"]) (simp add: add.assoc)
    qed
  qed
qed

lemma c_string_at_shift:
  "drop a l1 = drop b l2 \<Longrightarrow> c_string_at l1 (a + k) = c_string_at l2 (b + k)"
  using drop_eq_shift [of a l1 b l2 k] by (simp add: c_string_at_def)

text \<open>
  The command parser reads the line from the byte before \<open>line_idx\<close> on, so two lines
  with the same text from there give the same job and heap.
\<close>

lemma crond_crontab_parse_command_shift:
  assumes "0 < i1" and "0 < i2" and "drop (i1 - 1) l1 = drop (i2 - 1) l2"
    and "length l1 < SIZE_MAX" and "length l2 < SIZE_MAX"
  shows "crond_crontab_parse_command ok h l1 i1 job = crond_crontab_parse_command ok h l2 i2 job"
proof -
  from find_stdin_start_shift [OF assms(1-3)]
  obtain d where
    a: "find_stdin_start l1 i1 =
          (i1 + d, if char_at l1 (i1 + d) = CHR ''%'' then i1 + d + 1 else SIZE_MAX)"
    and b: "find_stdin_start l2 i2 =
          (i2 + d, if char_at l1 (i1 + d) = CHR ''%'' then i2 + d + 1 else SIZE_MAX)"
    and c: "char_at l1 (i1 + d) = CHR ''%'' \<longrightarrow> i1 + d < length l1 \<and> i2 + d < length l2"
    by blast
  have d0: "drop i1 l1 = drop i2 l2"
    using drop_eq_shift [OF assms(3), of 1] assms(1,2) by simp
  have cmd: "c_string_at l1 i1 = c_string_at l2 i2"
    using c_string_at_shift [OF d0, of 0] by simp
  have pay: "c_string_at l1 (i1 + d + 1) = c_string_at l2 (i2 + d + 1)"
    using c_string_at_shift [OF d0, of "d + 1"] by (simp add: add.assoc)
  show ?thesis
  proof (cases "char_at l1 (i1 + d) = CHR ''%''")
    case True
    then have "i1 + d + 1 \<noteq> SIZE_MAX" "i2 + d + 1 \<noteq> SIZE_MAX"
      using c assms(4,5) by auto
    then show ?thesis
      using True cmd pay
      by (auto simp: crond_crontab_parse_command_def a b strndup_def strdup_def
               split: prod.splits option.splits)
  next
    case False
    then show ?thesis
      using cmd
      by (auto simp: crond_crontab_parse_command_def a b strndup_def split: prod.splits)
  qed
qed


lemma takeWhile_drop_le:
  "j \<le> length (takeWhile p s) \<Longrightarrow> takeWhile p (drop j s) = drop j (takeWhile p s)"
proof (induction s arbitrary: j)
  case Nil
  then show ?case by simp
next
  case (Cons a s)
  then show ?case by (cases j) (auto split: if_splits)
qed

lemma parse_line_valid_canonical:
  assumes "idx = length P + j" and "j \<le> length (takeWhile isblank s)"
    and "0 < length (takeWhile isblank s)" and "length (P @ s) < SIZE_MAX"
  shows "parse_line_valid ok h c (P @ s) idx M = parse_line_valid ok h c s 0 M"
proof -
  define nbs where "nbs = length (takeWhile isblank s)"
  have b1: "crond_crontab_parse_blank (P @ s) idx = (nbs - j, length P + nbs)"
    using assms(1,2) by (simp add: crond_crontab_parse_blank_closed takeWhile_drop_le nbs_def)
  have b2: "crond_crontab_parse_blank s 0 = (nbs, nbs)"
    by (simp add: crond_crontab_parse_blank_closed nbs_def)
  have pos: "0 < nbs" using assms(3) by (simp add: nbs_def)
  have dr: "drop (length P + nbs - 1) (P @ s) = drop (nbs - 1) s"
    using pos by simp
  have "crond_crontab_parse_command ok h (P @ s) (length P + nbs) (zero_job\<lparr>bits := M\<rparr>) =
        crond_crontab_parse_command ok h s nbs (zero_job\<lparr>bits := M\<rparr>)"
    using pos dr assms(4) by (intro crond_crontab_parse_command_shift) simp_all
  then show ?thesis
    by (simp add: parse_line_valid_def b1 b2)
qed

lemmas field_eval =
  isdigit_def isblank_def NUL_def size_sub_def SIZE_MAX_def crond_strtoul_field_def
  scan_digits_def field_fill_def parse_field_item_def parse_field_items.simps
  crond_parse_field_int_def crond_crontab_parse_blank_closed

lemma preset_fields:
  "\<exists>M. parse_special (CHR ''@'' # preset_token p @ CHR '' '' # cmd) 1 (bits zero_job) =
          (True, 1 + length (preset_token p), M) \<and>
        parse_five_fields (preset_expansion p @ CHR '' '' # cmd) 0 (bits zero_job) =
          (True, length (preset_expansion p) + length (takeWhile isblank (CHR '' '' # cmd)), M)"
  by (cases p) (simp_all add: parse_special_def parse_five_fields_def field_eval field_defs)

text \<open>
  The matcher on a job whose five fields are singletons, for a broken-down time in
  the POSIX ranges: the job runs exactly when the five members agree with it, the
  month being compared through \<open>tm_mon - 1\<close>, and also in January when the job's day
  is the 31st, whatever its month.
\<close>

lemma singleton_job_should_run:
  assumes "m < 60" and "hr < 24" and "d < 31" and "mo < 12" and "w < 7" and "valid_tm t"
  shows "crond_job_should_run t
           (zero_job\<lparr>bits :=
              crond_set_field_range (crond_set_field_range (crond_set_field_range
                (crond_set_field_range (crond_set_field_range (bits zero_job)
                   minute_field m m) hour_field hr hr) day_field d d) month_field mo mo)
                   weekday_field w w\<rparr>) =
         Some (tm_wday t = int w \<and> (tm_mon t - 1 = int mo \<or> tm_mon t = 0 \<and> d = 30) \<and>
               tm_mday t - 1 = int d \<and> tm_hour t = int hr \<and> tm_min t = int m)"
proof -
  define mem where "mem =
     crond_set_field_range (crond_set_field_range (crond_set_field_range
       (crond_set_field_range (crond_set_field_range (bits zero_job)
          minute_field m m) hour_field hr hr) day_field d d) month_field mo mo)
          weekday_field w w"
  have len: "length mem = 136"
    by (simp add: mem_def zero_job_def field_defs)
  have nth: "\<And>k. k < 136 \<Longrightarrow> mem ! k =
      (k = m \<or> k = 60 + hr \<or> k = 84 + d \<or> k = 115 + mo \<or> k = 127 + w)"
    by (auto simp: mem_def zero_job_def field_defs crond_set_field_range_nth)
  have rd: "\<And>f i. 0 \<le> int f + i \<Longrightarrow> int f + i < 136 \<Longrightarrow>
      field_read mem f i = Some (mem ! nat (int f + i))"
    by (simp add: field_read_def len)
  from assms(6) have r:
    "0 \<le> tm_min t" "tm_min t \<le> 59" "0 \<le> tm_hour t" "tm_hour t \<le> 23"
    "1 \<le> tm_mday t" "tm_mday t \<le> 31" "0 \<le> tm_mon t" "tm_mon t \<le> 11"
    "0 \<le> tm_wday t" "tm_wday t \<le> 6"
    by (simp_all add: valid_tm_def)
  have wd: "field_read mem weekday_field (tm_wday t) = Some (tm_wday t = int w)"
    using r assms(1-5) by (subst rd) (auto simp: field_defs nth)
  have mn: "field_read mem month_field (tm_mon t - 1) =
      Some (tm_mon t - 1 = int mo \<or> tm_mon t = 0 \<and> d = 30)"
    using r assms(1-5) by (subst rd) (auto simp: field_defs nth)
  have dy: "field_read mem day_field (tm_mday t - 1) = Some (tm_mday t - 1 = int d)"
    using r assms(1-5) by (subst rd) (auto simp: field_defs nth)
  have hh: "field_read mem hour_field (tm_hour t) = Some (tm_hour t = int hr)"
    using r assms(1-5) by (subst rd) (auto simp: field_defs nth)
  have mi: "field_read mem minute_field (tm_min t) = Some (tm_min t = int m)"
    using r assms(1-5) by (subst rd) (auto simp: field_defs nth)
  show ?thesis
    unfolding mem_def [symmetric]
    by (auto simp: crond_job_should_run_def wd mn dy hh mi and_then_def split: bool.splits)
qed






lemma keeps_bits_length: "keeps_bits a b \<Longrightarrow> length b = length a"
  by (simp add: keeps_bits_def)



text \<open>With no backslash before it, the first \<open>%\<close> is where the one-pass reading splits.\<close>

lemma split_spec_plain:
  "backslash \<notin> set cmd \<Longrightarrow> CHR ''%'' \<notin> set cmd \<Longrightarrow>
   split_spec (cmd @ CHR ''%'' # payload) = (cmd, Some payload)"
proof (induction cmd)
  case Nil
  show ?case by (cases payload) simp_all
next
  case (Cons c cs)
  then show ?case by (cases cs) auto
qed

section \<open>Properties of the change detector\<close>

text \<open>
  C6, as stated, fails: the stored timestamp starts all-zero, so a schedule file whose
  modification time is exactly \<open>{0, 0}\<close> is reported unchanged on its first observation.
\<close>

theorem has_changed_epoch_file_unchanged:
  "\<not> fst (crond_crontab_has_changed
      \<lparr>status_code = 0, mtime_crontab = \<lparr>tv_sec = 0, tv_nsec = 0\<rparr>, job_list = [], num_jobs = 0\<rparr>
      (Stat_ok \<lparr>tv_sec = 0, tv_nsec = 0\<rparr>))"
  by (simp add: crond_crontab_has_changed_def)

text \<open>
  C6, amended. When \<open>stat\<close> succeeds the detector reports changed exactly when the
  file's timestamp differs from the stored one, and the stored one is the file's
  afterwards, so that observing the same timestamp again reports unchanged; from the
  all-zero initial value the first observation of a file reports changed provided the
  file's timestamp is not itself all-zero. When \<open>stat\<close> fails with \<open>ENOENT\<close> it reports
  changed exactly when the stored value is non-zero, and the stored value is zero
  afterwards, so that a second \<open>ENOENT\<close> reports unchanged. On any other error it sets
  the failure exit status, reports unchanged and keeps the stored value.
\<close>

theorem crond_crontab_has_changed_cases:
  "fst (crond_crontab_has_changed crond (Stat_ok t)) = (mtime_crontab crond \<noteq> t) \<and>
   snd (crond_crontab_has_changed crond (Stat_ok t)) = crond\<lparr>mtime_crontab := t\<rparr> \<and>
   \<not> fst (crond_crontab_has_changed (snd (crond_crontab_has_changed crond (Stat_ok t))) (Stat_ok t)) \<and>
   (mtime_crontab crond = \<lparr>tv_sec = 0, tv_nsec = 0\<rparr> \<and> t \<noteq> \<lparr>tv_sec = 0, tv_nsec = 0\<rparr>
      \<longrightarrow> fst (crond_crontab_has_changed crond (Stat_ok t))) \<and>
   fst (crond_crontab_has_changed crond (Stat_err ENOENT)) =
     (mtime_crontab crond \<noteq> \<lparr>tv_sec = 0, tv_nsec = 0\<rparr>) \<and>
   snd (crond_crontab_has_changed crond (Stat_err ENOENT)) =
     crond\<lparr>mtime_crontab := \<lparr>tv_sec = 0, tv_nsec = 0\<rparr>\<rparr> \<and>
   \<not> fst (crond_crontab_has_changed
           (snd (crond_crontab_has_changed crond (Stat_err ENOENT))) (Stat_err ENOENT)) \<and>
   (e \<noteq> ENOENT \<longrightarrow>
      crond_crontab_has_changed crond (Stat_err e) = (False, crond\<lparr>status_code := EXIT_FAILURE\<rparr>))"
proof -
  have present: "crond_crontab_has_changed crond (Stat_ok t) =
      (mtime_crontab crond \<noteq> t, crond\<lparr>mtime_crontab := t\<rparr>)"
    by (cases crond) (simp add: crond_crontab_has_changed_def)
  have again: "\<not> fst (crond_crontab_has_changed (crond\<lparr>mtime_crontab := t\<rparr>) (Stat_ok t))"
    by (simp add: crond_crontab_has_changed_def)
  have absent: "crond_crontab_has_changed crond (Stat_err ENOENT) =
      (mtime_crontab crond \<noteq> \<lparr>tv_sec = 0, tv_nsec = 0\<rparr>,
       crond\<lparr>mtime_crontab := \<lparr>tv_sec = 0, tv_nsec = 0\<rparr>\<rparr>)"
    by (cases crond) (auto simp: crond_crontab_has_changed_def timespec_nonzero)
  have absent_again: "\<not> fst (crond_crontab_has_changed
      (crond\<lparr>mtime_crontab := \<lparr>tv_sec = 0, tv_nsec = 0\<rparr>\<rparr>) (Stat_err ENOENT))"
    by (simp add: crond_crontab_has_changed_def)
  have other: "e \<noteq> ENOENT \<longrightarrow>
      crond_crontab_has_changed crond (Stat_err e) = (False, crond\<lparr>status_code := EXIT_FAILURE\<rparr>)"
    by (simp add: crond_crontab_has_changed_def crond_errx_noexit_def)
  show ?thesis
    using again absent_again other by (auto simp: present absent)
qed

theorem crond_crontab_has_changed_cases_witness:
  "fst (crond_crontab_has_changed
      \<lparr>status_code = 0, mtime_crontab = \<lparr>tv_sec = 0, tv_nsec = 0\<rparr>, job_list = [], num_jobs = 0\<rparr>
      (Stat_ok \<lparr>tv_sec = 1700000000, tv_nsec = 5\<rparr>)) \<and>
   crond_crontab_has_changed
      \<lparr>status_code = 0, mtime_crontab = \<lparr>tv_sec = 0, tv_nsec = 0\<rparr>, job_list = [], num_jobs = 0\<rparr>
      (Stat_err 13) =
   (False, \<lparr>status_code = 1, mtime_crontab = \<lparr>tv_sec = 0, tv_nsec = 0\<rparr>, job_list = [], num_jobs = 0\<rparr>)"
  using crond_crontab_has_changed_cases
    [of "\<lparr>status_code = 0, mtime_crontab = \<lparr>tv_sec = 0, tv_nsec = 0\<rparr>, job_list = [], num_jobs = 0\<rparr>"
        "\<lparr>tv_sec = 1700000000, tv_nsec = 5\<rparr>" 13]
  by (simp add: ENOENT_def EXIT_FAILURE_def)

section \<open>Properties of the matcher\<close>




text \<open>
  C4 fails on the code. The job parsed from \<open>2 3 31 5 6 /bin/x\<close> has the single month
  bit 4, and the broken-down time 03:02 on Saturday 31 January (\<open>tm_mon = 0\<close>) differs
  from it in the month; the month lookup at index -1 reads \<open>day[30]\<close>, which the day
  field 31 has set, and the matcher returns true.
\<close>

theorem should_run_january_31_mismatch:
  "map (crond_job_should_run \<lparr>tm_min = 2, tm_hour = 3, tm_mday = 31, tm_mon = 0, tm_wday = 6\<rparr>)
       (job_list (fst (crond_crontab_parse_line (\<lambda>_. True) \<lparr>cells = (\<lambda>_. None), brk = 0\<rparr>
          \<lparr>status_code = 0, mtime_crontab = \<lparr>tv_sec = 0, tv_nsec = 0\<rparr>, job_list = [], num_jobs = 0\<rparr>
          ''2 3 31 5 6 /bin/x'')))
   = [Some True]"
  by (simp add: parse_eval command_eval append_eval line_eval
        crond_job_should_run_def field_read_def and_then_def crond_set_field_range_nth)

section \<open>Properties of the schedule store\<close>

text \<open>
  C7. When the size computation \<open>(num_jobs + 1) * sizeof(job)\<close> reports wrap or the
  reallocation fails, \<open>crond_job_append\<close> returns false and leaves \<open>job_list\<close>,
  \<open>num_jobs\<close> and every live buffer as they were. In \<open>crond_crontab_parse_line\<close> the
  store is then unchanged as well, the buffers of the job that was to be appended are
  freed, and no buffer is live that was not live before the line was parsed.
\<close>

theorem crond_job_append_failure:
  "(fst (si_mul_size_t (size_add (num_jobs crond) 1) sizeof_crond_job) \<noteq> 0 \<or> \<not> ok (brk hh) \<longrightarrow>
      \<not> fst (crond_job_append ok hh crond jb) \<and>
      job_list (fst (snd (crond_job_append ok hh crond jb))) = job_list crond \<and>
      num_jobs (fst (snd (crond_job_append ok hh crond jb))) = num_jobs crond \<and>
      cells (snd (snd (crond_job_append ok hh crond jb))) = cells hh) \<and>
   (crond_crontab_parse_command ok h line (snd (crond_crontab_parse_blank line i))
        (zero_job\<lparr>bits := mem\<rparr>) = (True, job, h1) \<and>
    (fst (si_mul_size_t (size_add (num_jobs crond) 1) sizeof_crond_job) \<noteq> 0 \<or> \<not> ok (brk h1)) \<longrightarrow>
      job_list (fst (parse_line_valid ok h crond line i mem)) = job_list crond \<and>
      num_jobs (fst (parse_line_valid ok h crond line i mem)) = num_jobs crond \<and>
      (\<forall>a. command job = Some a \<or> stdin_lines job = Some a \<longrightarrow>
           cells (snd (parse_line_valid ok h crond line i mem)) a = None) \<and>
      (\<forall>a. cells (snd (parse_line_valid ok h crond line i mem)) a \<noteq> None \<longrightarrow> cells h a \<noteq> None))"
proof (intro conjI impI)
  assume f: "fst (si_mul_size_t (size_add (num_jobs crond) 1) sizeof_crond_job) \<noteq> 0 \<or> \<not> ok (brk hh)"
  from crond_job_append_fails [of crond ok hh jb] f
  obtain h' where a: "crond_job_append ok hh crond jb = (False, crond\<lparr>status_code := EXIT_FAILURE\<rparr>, h')"
    and c: "cells h' = cells hh" by blast
  show "\<not> fst (crond_job_append ok hh crond jb)" using a by simp
  show "job_list (fst (snd (crond_job_append ok hh crond jb))) = job_list crond" using a by simp
  show "num_jobs (fst (snd (crond_job_append ok hh crond jb))) = num_jobs crond" using a by simp
  show "cells (snd (snd (crond_job_append ok hh crond jb))) = cells hh" using a c by simp
next
  assume asm: "crond_crontab_parse_command ok h line (snd (crond_crontab_parse_blank line i))
        (zero_job\<lparr>bits := mem\<rparr>) = (True, job, h1) \<and>
    (fst (si_mul_size_t (size_add (num_jobs crond) 1) sizeof_crond_job) \<noteq> 0 \<or> \<not> ok (brk h1))"
  then have pc: "crond_crontab_parse_command ok h line (snd (crond_crontab_parse_blank line i))
        (zero_job\<lparr>bits := mem\<rparr>) = (True, job, h1)"
    and f: "fst (si_mul_size_t (size_add (num_jobs crond) 1) sizeof_crond_job) \<noteq> 0 \<or> \<not> ok (brk h1)"
    by simp_all
  from crond_job_append_fails [of crond ok h1 job] f
  obtain h' where a: "crond_job_append ok h1 crond job = (False, crond\<lparr>status_code := EXIT_FAILURE\<rparr>, h')"
    and c: "cells h' = cells h1" by blast
  have plv: "parse_line_valid ok h crond line i mem =
      (crond\<lparr>status_code := EXIT_FAILURE\<rparr>, crond_job_free h' job)"
  proof -
    obtain nb i2 where pbk: "crond_crontab_parse_blank line i = (nb, i2)"
      by (cases "crond_crontab_parse_blank line i")
    with pc have "crond_crontab_parse_command ok h line i2 (zero_job\<lparr>bits := mem\<rparr>) = (True, job, h1)"
      by simp
    then show ?thesis
      by (simp add: parse_line_valid_def pbk a)
  qed
  have pb: "\<forall>a. Some a \<noteq> command job \<and> Some a \<noteq> stdin_lines job \<longrightarrow> cells h1 a = cells h a"
    using parse_command_buffers(2) [OF pc] by (simp add: zero_job_def)
  show "job_list (fst (parse_line_valid ok h crond line i mem)) = job_list crond"
    by (simp add: plv)
  show "num_jobs (fst (parse_line_valid ok h crond line i mem)) = num_jobs crond"
    by (simp add: plv)
  show "\<forall>a. command job = Some a \<or> stdin_lines job = Some a \<longrightarrow>
           cells (snd (parse_line_valid ok h crond line i mem)) a = None"
    by (auto simp: plv crond_job_free_def heap_free_def split: option.splits)
  show "\<forall>a. cells (snd (parse_line_valid ok h crond line i mem)) a \<noteq> None \<longrightarrow> cells h a \<noteq> None"
    using pb c
    by (auto simp: plv crond_job_free_def heap_free_def split: option.splits if_splits)
qed

text \<open>
  Witness: the line \<open>* * * * * /bin/true\<close> with the command at index 10, an allocator
  that serves the first request (the command copy) and refuses the second (the array).
\<close>

theorem crond_job_append_failure_witness:
  "\<not> fst (crond_job_append (\<lambda>n. n = 0)
        \<lparr>cells = (\<lambda>_. None)(0 \<mapsto> ''/bin/true'' @ [NUL]), brk = 1\<rparr>
        \<lparr>status_code = 0, mtime_crontab = \<lparr>tv_sec = 0, tv_nsec = 0\<rparr>, job_list = [], num_jobs = 0\<rparr>
        \<lparr>command = Some 0, stdin_lines = None, stdin_lines_len = 0, bits = replicate 136 False\<rparr>) \<and>
   job_list (fst (parse_line_valid (\<lambda>n. n = 0) \<lparr>cells = (\<lambda>_. None), brk = 0\<rparr>
        \<lparr>status_code = 0, mtime_crontab = \<lparr>tv_sec = 0, tv_nsec = 0\<rparr>, job_list = [], num_jobs = 0\<rparr>
        ''* * * * * /bin/true'' 10 (replicate 136 False))) = [] \<and>
   cells (snd (parse_line_valid (\<lambda>n. n = 0) \<lparr>cells = (\<lambda>_. None), brk = 0\<rparr>
        \<lparr>status_code = 0, mtime_crontab = \<lparr>tv_sec = 0, tv_nsec = 0\<rparr>, job_list = [], num_jobs = 0\<rparr>
        ''* * * * * /bin/true'' 10 (replicate 136 False))) 0 = None"
  using crond_job_append_failure
    [of "\<lparr>status_code = 0, mtime_crontab = \<lparr>tv_sec = 0, tv_nsec = 0\<rparr>, job_list = [], num_jobs = 0\<rparr>"
        "\<lambda>n. n = 0"
        "\<lparr>cells = (\<lambda>_. None)(0 \<mapsto> ''/bin/true'' @ [NUL]), brk = 1\<rparr>"
        "\<lparr>command = Some 0, stdin_lines = None, stdin_lines_len = 0, bits = replicate 136 False\<rparr>"
        "\<lparr>cells = (\<lambda>_. None), brk = 0\<rparr>"
        "''* * * * * /bin/true''" 10 "replicate 136 False"
        "\<lparr>command = Some 0, stdin_lines = None, stdin_lines_len = 0, bits = replicate 136 False\<rparr>"
        "\<lparr>cells = (\<lambda>_. None)(0 \<mapsto> ''/bin/true'' @ [NUL]), brk = 1\<rparr>"]
  by (simp add: parse_eval command_eval zero_job_def field_defs)

section \<open>Properties of whole-field entries\<close>




section \<open>Properties of ranges\<close>

text \<open>
  C1, as stated, fails: in the minute field of \<open>70-5 * * * * /bin/x\<close> the upper endpoint
  of the range after subtraction and swapping would be 70, above the cardinality 60,
  but the parser tests the first endpoint before it swaps, rejects the field, writes
  nothing (element 60 stays clear) and the line yields no job.
\<close>

theorem range_first_endpoint_high_rejected:
  "crond_parse_field_int ''70-5 * * * * /bin/x'' 0 (replicate 136 False)
     minute_field sizeof_minute 0 = (- 1, 5, replicate 136 False) \<and>
   \<not> snd (snd (crond_parse_field_int ''70-5 * * * * /bin/x'' 0 (replicate 136 False)
              minute_field sizeof_minute 0)) ! (minute_field + sizeof_minute) \<and>
   job_list (fst (crond_crontab_parse_line (\<lambda>_. True) \<lparr>cells = (\<lambda>_. None), brk = 0\<rparr>
      \<lparr>status_code = 0, mtime_crontab = \<lparr>tv_sec = 0, tv_nsec = 0\<rparr>, job_list = [], num_jobs = 0\<rparr>
      ''70-5 * * * * /bin/x'')) = []"
  by (simp add: parse_eval line_eval)

text \<open>
  C1, amended. For every range item \<open>a-b\<close> the field loop reaches, at any position of
  the comma list of any field: when the first endpoint, after the offset is
  subtracted, is below the cardinality and the second one is at or above it (and is
  not the wrapped value \<open>SIZE_MAX\<close>, which the parser reads as "no range"), the
  parser clamps the upper endpoint to the cardinality, not to cardinality - 1, and
  the inclusive fill loop sets the element at index cardinality, one past the end of
  the array; that element is still set when the field has been parsed. When the
  first endpoint is at or above the cardinality the item is rejected and nothing is
  written.
\<close>

theorem range_upper_clamp_overrun:
  assumes "is_field_number da" and "is_field_number db"
    and "length db = 2 \<or> \<not> isdigit (char_at rest 0)"
  shows
   "(size_sub (field_number da) offset < field_len \<and>
     field_len \<le> size_sub (field_number db) offset \<and>
     size_sub (field_number db) offset \<noteq> SIZE_MAX \<and>
     field + field_len < length mem \<longrightarrow>
       parse_field_item (pre @ da @ ''-'' @ db @ rest) (length pre) rc mem field field_len offset =
         (False, rc, length pre + length da + 1 + length db,
          crond_set_field_range mem field (size_sub (field_number da) offset) field_len) \<and>
       snd (snd (parse_field_items (pre @ da @ ''-'' @ db @ rest) (length pre) rc mem
                   field field_len offset)) ! (field + field_len) \<and>
       snd (snd (crond_parse_field_int (pre @ da @ ''-'' @ db @ rest) (length pre) mem
                   field field_len offset)) ! (field + field_len)) \<and>
    (field_len \<le> size_sub (field_number da) offset \<longrightarrow>
       parse_field_item (pre @ da @ ''-'' @ db @ rest) (length pre) rc mem field field_len offset =
         (False, - 1, length pre + length da + 1 + length db, mem))"
proof (intro conjI impI)
  define L where "L = pre @ da @ ''-'' @ db @ rest"
  define d1 where "d1 = size_sub (field_number da) offset"
  define d2 where "d2 = size_sub (field_number db) offset"
  note item = parse_field_item_range [OF assms, of pre rc mem field field_len offset,
      folded L_def d1_def d2_def]
  {
    assume "field_len \<le> size_sub (field_number da) offset"
    then show "parse_field_item (pre @ da @ ''-'' @ db @ rest) (length pre) rc mem field field_len offset =
         (False, - 1, length pre + length da + 1 + length db, mem)"
      using item by (simp add: field_fill_def L_def d1_def d2_def)
  }
  assume a: "size_sub (field_number da) offset < field_len \<and>
     field_len \<le> size_sub (field_number db) offset \<and>
     size_sub (field_number db) offset \<noteq> SIZE_MAX \<and>
     field + field_len < length mem"
  then have ff: "field_fill rc mem field field_len d1 d2 =
      (rc, crond_set_field_range mem field d1 field_len)"
    by (auto simp: field_fill_def d1_def d2_def)
  have it: "parse_field_item L (length pre) rc mem field field_len offset =
      (False, rc, length pre + length da + 1 + length db,
       crond_set_field_range mem field d1 field_len)"
    using item ff by simp
  then show "parse_field_item (pre @ da @ ''-'' @ db @ rest) (length pre) rc mem field field_len offset =
         (False, rc, length pre + length da + 1 + length db,
          crond_set_field_range mem field (size_sub (field_number da) offset) field_len)"
    by (simp add: L_def d1_def)
  have bit: "crond_set_field_range mem field d1 field_len ! (field + field_len)"
    using a by (simp add: crond_set_field_range_nth d1_def)
  have len: "field + field_len < length (crond_set_field_range mem field d1 field_len)"
    using a by simp
  have "snd (snd (parse_field_items L (length pre) rc mem field field_len offset)) ! (field + field_len)"
    using it len bit by (rule parse_field_items_keeps_bit)
  then show "snd (snd (parse_field_items (pre @ da @ ''-'' @ db @ rest) (length pre) rc mem
                   field field_len offset)) ! (field + field_len)"
    by (simp add: L_def)
  have it0: "parse_field_item L (length pre) 0 mem field field_len offset =
      (False, 0, length pre + length da + 1 + length db,
       crond_set_field_range mem field d1 field_len)"
    using parse_field_item_range [OF assms, of pre 0 mem field field_len offset,
      folded L_def d1_def d2_def] a
    by (auto simp: field_fill_def d1_def d2_def)
  have "snd (snd (parse_field_items L (length pre) 0 mem field field_len offset)) ! (field + field_len)"
    using it0 len bit by (rule parse_field_items_keeps_bit)
  moreover have "char_at L (length pre) \<noteq> CHR ''*''"
    unfolding L_def using field_number_first_digit [OF assms(1)] by simp
  ultimately have "snd (snd (crond_parse_field_int L (length pre) mem field field_len offset))
      ! (field + field_len)"
    by (auto simp: crond_parse_field_int_def split: prod.splits)
  then show "snd (snd (crond_parse_field_int (pre @ da @ ''-'' @ db @ rest) (length pre) mem
                   field field_len offset)) ! (field + field_len)"
    by (simp add: L_def)
qed


text \<open>
  Witness: \<open>55-70\<close> in the minute field sets \<open>minute[60]\<close>, which is \<open>hour[0]\<close>; \<open>70-55\<close>
  is rejected with the region untouched.
\<close>

theorem range_upper_clamp_overrun_witness:
  "snd (snd (crond_parse_field_int ''55-70 x'' 0 (replicate 136 False)
              minute_field sizeof_minute 0)) ! hour_field \<and>
   parse_field_item ''70-55 x'' 0 0 (replicate 136 False) minute_field sizeof_minute 0 =
     (False, - 1, 5, replicate 136 False)"
  using range_upper_clamp_overrun
    [where da = "''55''" and db = "''70''" and rest = "'' x''" and pre = "[]" and offset = 0
       and field_len = sizeof_minute and field = minute_field and mem = "replicate 136 False"
       and rc = 0]
    range_upper_clamp_overrun
    [where da = "''70''" and db = "''55''" and rest = "'' x''" and pre = "[]" and offset = 0
       and field_len = sizeof_minute and field = minute_field and mem = "replicate 136 False"
       and rc = 0]
  by (simp add: is_field_number_def field_number_def isdigit_def crond_strtoul_field_def
        size_sub_def SIZE_MAX_def NUL_def field_defs)

text \<open>
  C2, as stated, fails: in the hour field \<open>3-30\<close> is accepted (and clamped) while
  \<open>30-3\<close> is rejected, because the bound on the first endpoint is tested before the
  swap.
\<close>

theorem range_swap_rejected_one_way:
  "fst (crond_parse_field_int ''3-30 x'' 0 (replicate 136 False) hour_field sizeof_hour 0) = 0 \<and>
   fst (crond_parse_field_int ''30-3 x'' 0 (replicate 136 False) hour_field sizeof_hour 0) = - 1"
  by (simp add: parse_eval field_defs)

text \<open>
  C2, amended. For field texts \<open>a-b\<close> and \<open>b-a\<close> whose two numbers are both valid
  indices of the field after the offset is subtracted, followed by the same text,
  the parser produces the same result: the same return code, the same index and the
  same boolean region, in which the item has set the elements from the smaller to
  the larger index. So both texts are accepted or rejected together.
\<close>

theorem range_swap_in_bounds:
  assumes "is_field_number da" and "is_field_number db"
    and "\<not> isdigit (char_at rest 0)"
    and "field_len \<le> SIZE_MAX"
    and "size_sub (field_number da) offset < field_len"
    and "size_sub (field_number db) offset < field_len"
  shows
   "parse_field_items (pre @ da @ ''-'' @ db @ rest) (length pre) rc mem field field_len offset =
    parse_field_items (pre @ db @ ''-'' @ da @ rest) (length pre) rc mem field field_len offset \<and>
    crond_parse_field_int (pre @ da @ ''-'' @ db @ rest) (length pre) mem field field_len offset =
    crond_parse_field_int (pre @ db @ ''-'' @ da @ rest) (length pre) mem field field_len offset \<and>
    parse_field_item (pre @ da @ ''-'' @ db @ rest) (length pre) rc mem field field_len offset =
      (False, rc, length pre + length da + 1 + length db,
       crond_set_field_range mem field
         (min (size_sub (field_number da) offset) (size_sub (field_number db) offset))
         (max (size_sub (field_number da) offset) (size_sub (field_number db) offset)))"
proof -
  define L1 where "L1 = pre @ da @ ''-'' @ db @ rest"
  define L2 where "L2 = pre @ db @ ''-'' @ da @ rest"
  define d1 where "d1 = size_sub (field_number da) offset"
  define d2 where "d2 = size_sub (field_number db) offset"
  define n where "n = length pre + length da + 1 + length db"
  have ff1: "\<And>r. field_fill r mem field field_len d1 d2 =
      (r, crond_set_field_range mem field (min d1 d2) (max d1 d2))"
    using assms(4-6) by (auto simp: field_fill_def d1_def d2_def min_def max_def)
  have ff2: "\<And>r. field_fill r mem field field_len d2 d1 =
      (r, crond_set_field_range mem field (min d1 d2) (max d1 d2))"
    using assms(4-6) by (auto simp: field_fill_def d1_def d2_def min_def max_def)
  have it1: "\<And>r. parse_field_item L1 (length pre) r mem field field_len offset =
      (False, r, n, crond_set_field_range mem field (min d1 d2) (max d1 d2))"
    using parse_field_item_range [OF assms(1,2), of rest pre _ mem field field_len offset] assms(3) ff1
    by (simp add: L1_def d1_def d2_def n_def)
  have it2: "\<And>r. parse_field_item L2 (length pre) r mem field field_len offset =
      (False, r, n, crond_set_field_range mem field (min d1 d2) (max d1 d2))"
    using parse_field_item_range [OF assms(2,1), of rest pre _ mem field field_len offset] assms(3) ff2
    by (simp add: L2_def d1_def d2_def n_def)
  have dr: "drop n L1 = drop n L2"
    by (simp add: L1_def L2_def n_def)
  have c: "char_at L1 n = char_at L2 n"
    using dr by (rule drop_eq_char_at) simp
  have dr1: "drop (n + 1) L1 = drop (n + 1) L2"
    using dr by (rule drop_eq_mono) simp
  have items: "\<And>r. parse_field_items L1 (length pre) r mem field field_len offset =
      parse_field_items L2 (length pre) r mem field field_len offset"
    using c parse_field_items_suffix [OF dr1]
    by (simp add: parse_field_items_unfold [OF it1] parse_field_items_unfold [OF it2])
  have ns1: "char_at L1 (length pre) \<noteq> CHR ''*''"
    unfolding L1_def using field_number_first_digit [OF assms(1)] by simp
  have ns2: "char_at L2 (length pre) \<noteq> CHR ''*''"
    unfolding L2_def using field_number_first_digit [OF assms(2)] by simp
  obtain r i m where res: "parse_field_items L2 (length pre) 0 mem field field_len offset = (r, i, m)"
    by (cases "parse_field_items L2 (length pre) 0 mem field field_len offset")
  have "n \<le> i"
  proof (cases "char_at L2 n = CHR '',''")
    case True
    then have "parse_field_items L2 (n + 1) 0 (crond_set_field_range mem field (min d1 d2) (max d1 d2))
        field field_len offset = (r, i, m)"
      using res by (simp add: parse_field_items_unfold [OF it2])
    then have "n + 1 \<le> i" by (rule parse_field_items_idx)
    then show ?thesis by simp
  next
    case False
    then show ?thesis
      using res by (simp add: parse_field_items_unfold [OF it2])
  qed
  then have "drop i L1 = drop i L2"
    using dr drop_eq_mono by blast
  then have blank: "crond_crontab_parse_blank L1 i = crond_crontab_parse_blank L2 i"
    unfolding crond_crontab_parse_blank_def by (rule parse_blank_loop_suffix)
  have int: "crond_parse_field_int L1 (length pre) mem field field_len offset =
      crond_parse_field_int L2 (length pre) mem field field_len offset"
    using ns1 ns2 items [of 0] res blank by (simp add: crond_parse_field_int_def)
  show ?thesis
    using items [of rc] int it1 [of rc]
    by (simp add: L1_def L2_def d1_def d2_def n_def)
qed

text \<open>Witness: \<open>2-1\<close> and \<open>1-2\<close> in the minute field.\<close>

theorem range_swap_in_bounds_witness:
  "crond_parse_field_int ''2-1 x'' 0 (replicate 136 False) minute_field sizeof_minute 0 =
   crond_parse_field_int ''1-2 x'' 0 (replicate 136 False) minute_field sizeof_minute 0"
  using range_swap_in_bounds
    [where da = "''2''" and db = "''1''" and rest = "'' x''" and pre = "[]" and offset = 0
       and field_len = sizeof_minute and field = minute_field and mem = "replicate 136 False"
       and rc = 0]
  by (simp add: is_field_number_def field_number_def isdigit_def crond_strtoul_field_def
        size_sub_def SIZE_MAX_def NUL_def field_defs)

section \<open>Properties of the stdin payload\<close>

text \<open>
  The split loop of the source takes a \<open>%\<close> for escaped exactly when the byte before
  it is a backslash. Let the line be \<open>pre @ cmd @ % @ payload\<close>, with the command
  section starting after \<open>pre\<close>, every \<open>%\<close> of \<open>cmd\<close> preceded by a backslash and the \<open>%\<close>
  after \<open>cmd\<close> not preceded by one. When both copies can be allocated,
  \<open>crond_crontab_parse_command\<close> succeeds, the command buffer holds \<open>cmd\<close>, and the
  first \<open>stdin_lines_len\<close> bytes of the payload buffer are the payload transformed in
  one pass (backslash and a byte to that byte, any other \<open>%\<close> to a newline) followed
  by exactly one newline. For a payload without \<open>%\<close> and without backslash they are
  the payload and one newline.
\<close>

theorem stdin_payload_unescaped:
  assumes "pre \<noteq> []" and "NUL \<notin> set cmd" and "unescaped_percent_free (last pre) cmd"
    and "last (pre @ cmd) \<noteq> backslash" and "NUL \<notin> set payload"
    and "length (pre @ cmd @ ''%'' @ payload) < SIZE_MAX"
    and "ok (brk h)" and "ok (brk h + 1)"
  shows "\<exists>buf h'.
      crond_crontab_parse_command ok h (pre @ cmd @ ''%'' @ payload) (length pre) job =
        (True,
         job\<lparr>stdin_lines_len := length (payload_spec payload) + 1,
             command := Some (brk h), stdin_lines := Some (brk h + 1)\<rparr>, h') \<and>
      cells h' (brk h) = Some (cmd @ [NUL]) \<and>
      cells h' (brk h + 1) = Some buf \<and>
      take (length (payload_spec payload) + 1) buf = payload_spec payload @ [newline] \<and>
      (CHR ''%'' \<notin> set payload \<and> backslash \<notin> set payload \<longrightarrow>
         take (length payload + 1) buf = payload @ [newline])"
proof -
  define L where "L = pre @ cmd @ CHR ''%'' # payload"
  define n where "n = length pre + length cmd"
  have fs: "find_stdin_start L (length pre) = (n, n + 1)"
    unfolding L_def n_def using assms(1-4) by (rule find_stdin_start_text)
  have nsm: "n + 1 \<noteq> SIZE_MAX"
    using assms(6) by (simp add: n_def)
  have cmdstr: "take (n - length pre) (c_string_at L (length pre)) = cmd"
  proof -
    have "c_string_at L (length pre) = takeWhile (\<lambda>c. c \<noteq> NUL) (cmd @ CHR ''%'' # payload)"
      by (simp add: c_string_at_def L_def)
    also have "\<dots> = cmd @ takeWhile (\<lambda>c. c \<noteq> NUL) (CHR ''%'' # payload)"
      using assms(2) by (rule takeWhile_no_NUL)
    finally show ?thesis by (simp add: n_def)
  qed
  have pl: "c_string_at L (n + 1) = payload"
    using c_string_at_append [OF assms(5), of "pre @ cmd @ ''%''"]
    by (simp add: L_def n_def)
  obtain s i' where lp: "stdin_unescape_loop (payload @ [NUL]) 0 0 = (s, i')"
    by (cases "stdin_unescape_loop (payload @ [NUL]) 0 0")
  have c0: "c_string_at (payload @ [NUL]) 0 = payload"
    using c_string_at_append_NUL [OF assms(5), of "[]" "[]"] by simp
  have corr: "length s = length payload + 1 \<and> i' \<le> length payload \<and>
      take i' s = payload_spec payload"
    using stdin_unescape_loop_correct [OF _ lp] by (simp add: c0)
  then have i': "i' = length (payload_spec payload)"
    by (metis length_take min.absorb2 le_SucI Suc_eq_plus1)
  have tk: "take (i' + 1) (s[i' := newline]) = payload_spec payload @ [newline]"
    using corr by (simp add: take_Suc_update)
  define h' where "h' = h\<lparr>brk := brk h + 1 + 1,
      cells := ((cells h)(brk h \<mapsto> cmd @ [NUL]))(brk h + 1 \<mapsto> s[i' := newline])\<rparr>"
  have pc: "crond_crontab_parse_command ok h L (length pre) job =
        (True,
         job\<lparr>stdin_lines_len := i' + 1, command := Some (brk h), stdin_lines := Some (brk h + 1)\<rparr>, h')"
    using assms(7,8) nsm
    by (simp add: crond_crontab_parse_command_def fs strndup_def strdup_def heap_alloc_def
          cmdstr pl [simplified] lp h'_def)
  have plain: "CHR ''%'' \<notin> set payload \<and> backslash \<notin> set payload \<longrightarrow>
         take (length payload + 1) (s[i' := newline]) = payload @ [newline]"
    using tk i' by (auto simp: payload_spec_plain)
  show ?thesis
    apply (rule exI [of _ "s[i' := newline]"])
    apply (rule exI [of _ h'])
    using pc tk plain i' by (simp add: L_def h'_def)
qed


text \<open>
  Witness: the line \<open>0 0 1 1 * /bin/esc%\<close> followed by the payload \<open>a\<close>, backslash,
  \<open>%b%c\<close>. The stored payload is \<open>a%b\<close>, newline, \<open>c\<close>, newline.
\<close>

theorem stdin_payload_unescaped_witness:
  "\<exists>buf h'.
      crond_crontab_parse_command (\<lambda>_. True) \<lparr>cells = (\<lambda>_. None), brk = 0\<rparr>
        (''0 0 1 1 * /bin/esc%a'' @ [backslash] @ ''%b%c'') 10 zero_job =
        (True, zero_job\<lparr>stdin_lines_len := 6, command := Some 0, stdin_lines := Some 1\<rparr>, h') \<and>
      cells h' 0 = Some (''/bin/esc'' @ [NUL]) \<and>
      cells h' 1 = Some buf \<and>
      take 6 buf = ''a%b'' @ [newline] @ ''c'' @ [newline]"
proof -
  have len: "length (''0 0 1 1 * '' @ ''/bin/esc'' @ ''%'' @ ''a'' @ [backslash] @ ''%b%c'') < SIZE_MAX"
    by (simp add: SIZE_MAX_def)
  show ?thesis
    using stdin_payload_unescaped
      [where pre = "''0 0 1 1 * ''" and cmd = "''/bin/esc''"
         and payload = "''a'' @ [backslash] @ ''%b%c''" and ok = "\<lambda>_. True"
         and h = "\<lparr>cells = (\<lambda>_. None), brk = 0\<rparr>" and job = zero_job, OF _ _ _ _ _ len]
    by (simp add: NUL_def backslash_def newline_def eval_nat_numeral)
qed

text \<open>
  C3 fails on the code. Take the line \<open>0 0 1 1 * /bin/e\<close>, two backslashes, \<open>%x%y\<close>.
  Read in one pass, the two backslashes of the command section are an escaped
  backslash, so the \<open>%\<close> after them is the first unescaped \<open>%\<close>: the command is \<open>/bin/e\<close>
  with the two backslashes and the payload is \<open>x%y\<close>, to be stored as \<open>x\<close>, newline, \<open>y\<close>,
  newline. The split loop of the source looks at the single byte before a \<open>%\<close>, takes
  this \<open>%\<close> for escaped and splits at the next one: the stored command runs up to
  \<open>%x\<close> and the stored payload is \<open>y\<close>, newline, of length 2.
\<close>

theorem stdin_split_after_escaped_backslash:
  "split_spec (drop 10 (''0 0 1 1 * /bin/e'' @ [backslash, backslash] @ ''%x%y'')) =
     (''/bin/e'' @ [backslash, backslash], Some ''x%y'') \<and>
   payload_spec ''x%y'' @ [newline] = ''x'' @ [newline] @ ''y'' @ [newline] \<and>
   find_stdin_start (''0 0 1 1 * /bin/e'' @ [backslash, backslash] @ ''%x%y'') 10 = (20, 21) \<and>
   (let C = crond_crontab_parse_command (\<lambda>_. True) \<lparr>cells = (\<lambda>_. None), brk = 0\<rparr>
              (''0 0 1 1 * /bin/e'' @ [backslash, backslash] @ ''%x%y'') 10 zero_job
    in fst C \<and>
       fst (snd C) = zero_job\<lparr>stdin_lines_len := 2, command := Some 0, stdin_lines := Some 1\<rparr> \<and>
       cells (snd (snd C)) 0 = Some (''/bin/e'' @ [backslash, backslash] @ ''%x'' @ [NUL]) \<and>
       cells (snd (snd C)) 1 = Some (''y'' @ [newline])) \<and>
   (let R = crond_crontab_parse_line (\<lambda>_. True) \<lparr>cells = (\<lambda>_. None), brk = 0\<rparr>
              \<lparr>status_code = 0, mtime_crontab = \<lparr>tv_sec = 0, tv_nsec = 0\<rparr>, job_list = [], num_jobs = 0\<rparr>
              (''0 0 1 1 * /bin/e'' @ [backslash, backslash] @ ''%x%y'')
    in map (\<lambda>job. (command job, stdin_lines job, stdin_lines_len job)) (job_list (fst R)) =
         [(Some 0, Some 1, 2)] \<and>
       cells (snd R) 0 = Some (''/bin/e'' @ [backslash, backslash] @ ''%x'' @ [NUL]) \<and>
       cells (snd R) 1 = Some (''y'' @ [newline]) \<and>
       cells (snd R) 1 \<noteq> Some (payload_spec ''x%y'' @ [newline]))"
  by (simp add: parse_eval command_eval append_eval line_eval Let_def)

section \<open>Properties of the reparse loop\<close>

text \<open>
  C10. When the bytes of the schedule file end in a non-empty final line without a
  newline, the reparse loop parses the lines before it and then passes the final
  line with its last byte overwritten by NUL: the C string the parser sees is the
  final line without its last character.
\<close>

theorem reparse_final_line_chopped:
  assumes "lastl \<noteq> []" and "newline \<notin> set lastl" and "pre = [] \<or> last pre = newline"
  shows "reparse_loop ok h crond (pre @ lastl) =
           (case reparse_loop ok h crond pre of
              (c1, h1) \<Rightarrow> crond_crontab_parse_line ok h1 c1 (lastl[length lastl - 1 := NUL])) \<and>
         c_string_at (lastl[length lastl - 1 := NUL]) 0 = c_string_at (butlast lastl) 0 \<and>
         (NUL \<notin> set lastl \<longrightarrow>
            c_string_at (lastl[length lastl - 1 := NUL]) 0 = butlast lastl)"
proof -
  have one: "\<And>h1 c1. reparse_loop ok h1 c1 lastl =
      crond_crontab_parse_line ok h1 c1 (lastl[length lastl - 1 := NUL])"
    using assms(1) getline_no_newline [OF assms(2)]
    by (subst reparse_loop.simps) (simp split: prod.splits)
  have upd: "lastl[length lastl - 1 := NUL] = butlast lastl @ [NUL]"
    using assms(1) by (cases lastl rule: rev_cases) (simp_all add: list_update_append)
  have cs: "c_string_at (lastl[length lastl - 1 := NUL]) 0 = c_string_at (butlast lastl) 0"
    unfolding upd by (simp add: c_string_at_def takeWhile_tail)
  have "NUL \<notin> set lastl \<longrightarrow> c_string_at (butlast lastl) 0 = butlast lastl"
    using c_string_at_append [of "butlast lastl" "[]"] by (auto dest: in_set_butlastD)
  then show ?thesis
    using reparse_loop_append [OF assms(3), of ok h crond lastl] one cs
    by simp
qed


text \<open>
  Witness: a comment line followed by \<open>* * * * * /bin/true\<close> without a newline stores
  the command \<open>/bin/tru\<close>.
\<close>

theorem reparse_final_line_chopped_witness:
  "(case reparse_loop (\<lambda>_. True) \<lparr>cells = (\<lambda>_. None), brk = 0\<rparr>
           \<lparr>status_code = 0, mtime_crontab = \<lparr>tv_sec = 0, tv_nsec = 0\<rparr>, job_list = [], num_jobs = 0\<rparr>
           ((''# c'' @ [newline]) @ ''* * * * * /bin/true'') of
      (c, hp) \<Rightarrow>
        map (\<lambda>j. case command j of None \<Rightarrow> None | Some a \<Rightarrow> cells hp a) (job_list c)) =
   [Some (''/bin/tru'' @ [NUL])]"
  using reparse_final_line_chopped
    [where pre = "''# c'' @ [newline]" and lastl = "''* * * * * /bin/true''"
       and ok = "\<lambda>_. True" and h = "\<lparr>cells = (\<lambda>_. None), brk = 0\<rparr>"
       and crond = "\<lparr>status_code = 0, mtime_crontab = \<lparr>tv_sec = 0, tv_nsec = 0\<rparr>,
                      job_list = [], num_jobs = 0\<rparr>"]
  by (simp add: reparse_loop.simps parse_eval command_eval append_eval line_eval)

section \<open>Properties of the presets\<close>

text \<open>
  C5. For every preset token and every command text, parsing the line made of \<open>@\<close>,
  the token, a blank and the command gives the same daemon state and heap as parsing
  the line made of the preset's five-field expansion, a blank and the same command:
  the same appended descriptor (all boolean arrays, command, stdin payload), for
  every allocator behaviour. The line is shorter than \<open>SIZE_MAX\<close>, as every C string
  is.
\<close>

theorem preset_equivalence:
  assumes "length cmd + 11 < SIZE_MAX"
  shows "crond_crontab_parse_line ok h crond (CHR ''@'' # preset_token p @ '' '' @ cmd) =
         crond_crontab_parse_line ok h crond (preset_expansion p @ '' '' @ cmd)"
proof -
  define s where "s = CHR '' '' # cmd"
  define L1 where "L1 = (CHR ''@'' # preset_token p) @ s"
  define L2 where "L2 = preset_expansion p @ s"
  define nbs where "nbs = length (takeWhile isblank s)"
  from preset_fields [of p cmd]
  obtain M where
    A: "parse_special L1 1 (bits zero_job) = (True, 1 + length (preset_token p), M)"
    and B: "parse_five_fields L2 0 (bits zero_job) = (True, length (preset_expansion p) + nbs, M)"
    by (auto simp: L1_def L2_def s_def nbs_def)
  have pos: "0 < nbs"
    by (simp add: nbs_def s_def isblank_def)
  have len_tok: "length (preset_token p) \<le> 8" and len_exp: "length (preset_expansion p) = 9"
    by (cases p; simp)+
  have len1: "length (((CHR ''@'' # preset_token p)) @ s) < SIZE_MAX"
    using assms len_tok by (simp add: s_def)
  have len2: "length (preset_expansion p @ s) < SIZE_MAX"
    using assms len_exp by (simp add: s_def)
  have c1: "char_at L1 0 = CHR ''@''"
    by (simp add: L1_def)
  have b1: "crond_crontab_parse_blank L1 0 = (0, 0)"
    by (simp add: L1_def crond_crontab_parse_blank_closed isblank_def)
  have c2: "char_at L2 0 = CHR ''0''"
    by (cases p) (simp_all add: L2_def)
  have b2: "crond_crontab_parse_blank L2 0 = (0, 0)"
    by (cases p) (simp_all add: L2_def crond_crontab_parse_blank_closed isblank_def)
  have "crond_crontab_parse_line ok h crond L1 =
      parse_line_valid ok h crond L1 (1 + length (preset_token p)) M"
    using A by (simp add: crond_crontab_parse_line_def b1 c1 NUL_def)
  also have "\<dots> = parse_line_valid ok h crond s 0 M"
    unfolding L1_def
    by (rule parse_line_valid_canonical [where j = 0]) (use pos len1 in \<open>simp_all add: nbs_def\<close>)
  finally have l1: "crond_crontab_parse_line ok h crond L1 = parse_line_valid ok h crond s 0 M" .
  have "crond_crontab_parse_line ok h crond L2 =
      parse_line_valid ok h crond L2 (length (preset_expansion p) + nbs) M"
    using B by (simp add: crond_crontab_parse_line_def b2 c2 NUL_def)
  also have "\<dots> = parse_line_valid ok h crond s 0 M"
    unfolding L2_def
    by (rule parse_line_valid_canonical [where j = nbs]) (use pos len2 in \<open>simp_all add: nbs_def\<close>)
  finally have l2: "crond_crontab_parse_line ok h crond L2 = parse_line_valid ok h crond s 0 M" .
  show ?thesis
    using l1 l2 by (simp add: L1_def L2_def s_def)
qed

text \<open>Witness: \<open>@weekly /bin/w\<close> and \<open>0 0 * * 0 /bin/w\<close>.\<close>

theorem preset_equivalence_witness:
  "crond_crontab_parse_line (\<lambda>_. True) \<lparr>cells = (\<lambda>_. None), brk = 0\<rparr>
     \<lparr>status_code = 0, mtime_crontab = \<lparr>tv_sec = 0, tv_nsec = 0\<rparr>, job_list = [], num_jobs = 0\<rparr>
     ''@weekly /bin/w'' =
   crond_crontab_parse_line (\<lambda>_. True) \<lparr>cells = (\<lambda>_. None), brk = 0\<rparr>
     \<lparr>status_code = 0, mtime_crontab = \<lparr>tv_sec = 0, tv_nsec = 0\<rparr>, job_list = [], num_jobs = 0\<rparr>
     ''0 0 * * 0 /bin/w''"
proof -
  have len: "length ''/bin/w'' + 11 < SIZE_MAX"
    by (simp add: SIZE_MAX_def)
  show ?thesis
    using preset_equivalence [OF len, where p = Weekly] by simp
qed

end
